theory Spec2Isabelle
  imports Main "HOL-Library.Word"
begin

unbundle bit_operations_syntax

section \<open>The ramdisk file system of kernel/fs/fs\_ramdisk.c\<close>

text \<open>
  The module keeps three kinds of heap objects: \<^verbatim>\<open>rd_file_t\<close> records, \<^verbatim>\<open>rd_dir_t\<close>
  list heads and data blocks. Each kind lives in a map of its own from addresses to
  contents; a pointer is a 32-bit address and \<^verbatim>\<open>NULL\<close> is address 0. The integers the
  source declares \<^verbatim>\<open>uint32\<close> (\<^verbatim>\<open>size\<close>, \<^verbatim>\<open>datasize\<close>, \<^verbatim>\<open>ptr\<close>) are 32-bit words, so every
  sum and difference wraps as it does on the machine. \<^verbatim>\<open>size_t\<close>, \<^verbatim>\<open>ssize_t\<close> and \<^verbatim>\<open>off_t\<close>
  are 32 bits wide on the target; a signed quantity is a word read with \<open>sint\<close>, and
  the return value \<^verbatim>\<open>-1\<close> is the word \<open>- 1\<close>.
\<close>

type_synonym uint32 = "32 word"
type_synonym uint8 = "8 word"
type_synonym addr = "32 word"

definition NULL :: addr where
  "NULL = 0"

subsection \<open>Constants\<close>

text \<open>The lock constants, as the source defines them.\<close>

definition OPENFOR_NOTHING :: int where
  "OPENFOR_NOTHING = 0"

definition OPENFOR_READ :: int where
  "OPENFOR_READ = 1"

definition OPENFOR_WRITE :: int where
  "OPENFOR_WRITE = 2"

text \<open>
  Modelled from the spec: the constants of the headers \<^verbatim>\<open><kos/fs.h>\<close>, \<^verbatim>\<open><sys/fcntl.h>\<close>,
  \<^verbatim>\<open><sys/stat.h>\<close> and \<^verbatim>\<open><stdio.h>\<close>, which the source includes and which are not among
  the files at hand. The spec describes the open flags as a bitfield carrying a mode
  (read-only, write-only, read-write) and the auxiliary bits directory, append and
  truncate, the stat mode as a file-type bit united with permission bits, and whence
  as one of set, current, end. The values are those of the platform's C library and
  of the kernel's header: the three modes are 0, 1 and 2, the mode mask is the low
  four bits, and the append bit (8) lies inside the mask.
\<close>

definition O_RDONLY :: uint32 where
  "O_RDONLY = 0"

definition O_WRONLY :: uint32 where
  "O_WRONLY = 1"

definition O_RDWR :: uint32 where
  "O_RDWR = 2"

definition O_APPEND :: uint32 where
  "O_APPEND = 0x0008"

definition O_TRUNC :: uint32 where
  "O_TRUNC = 0x0400"

definition O_MODE_MASK :: uint32 where
  "O_MODE_MASK = 0x0f"

definition O_DIR :: uint32 where
  "O_DIR = 0x1000"

definition STAT_TYPE_FILE :: int where
  "STAT_TYPE_FILE = 1"

definition STAT_TYPE_DIR :: int where
  "STAT_TYPE_DIR = 2"

definition SEEK_SET :: int where
  "SEEK_SET = 0"

definition SEEK_CUR :: int where
  "SEEK_CUR = 1"

definition SEEK_END :: int where
  "SEEK_END = 2"

definition S_IFDIR :: uint32 where
  "S_IFDIR = 0x4000"

definition S_IFREG :: uint32 where
  "S_IFREG = 0x8000"

definition S_IRUSR :: uint32 where
  "S_IRUSR = 0x100"

definition S_IWUSR :: uint32 where
  "S_IWUSR = 0x080"

definition S_IXUSR :: uint32 where
  "S_IXUSR = 0x040"

definition S_IRGRP :: uint32 where
  "S_IRGRP = 0x020"

definition S_IWGRP :: uint32 where
  "S_IWGRP = 0x010"

definition S_IXGRP :: uint32 where
  "S_IXGRP = 0x008"

definition S_IROTH :: uint32 where
  "S_IROTH = 0x004"

definition S_IWOTH :: uint32 where
  "S_IWOTH = 0x002"

definition S_IXOTH :: uint32 where
  "S_IXOTH = 0x001"

definition S_IRWXU :: uint32 where
  "S_IRWXU = S_IRUSR OR S_IWUSR OR S_IXUSR"

definition S_IRWXG :: uint32 where
  "S_IRWXG = S_IRGRP OR S_IWGRP OR S_IXGRP"

definition S_IRWXO :: uint32 where
  "S_IRWXO = S_IROTH OR S_IWOTH OR S_IXOTH"

subsection \<open>Data\<close>

text \<open>
  \<^verbatim>\<open>rd_file_t\<close>. The fields \<^verbatim>\<open>size\<close> and \<^verbatim>\<open>type\<close> are \<open>fsize\<close> and \<open>ftype\<close> here. The name
  is kept in the record (the source holds a pointer to a copy made by \<^verbatim>\<open>strdup\<close>); a
  string stands for the characters before the terminating NUL. \<open>dirlist\<close> is the
  \<^verbatim>\<open>LIST_ENTRY\<close>: it records the list head the entry is linked into.
\<close>

record rd_file =
  name :: string
  fsize :: uint32
  ftype :: int
  openfor :: int
  usage :: int
  data :: addr
  datasize :: uint32
  dirlist :: addr

text \<open>\<^verbatim>\<open>dirent_t\<close>, of which the source sets four fields.\<close>

record dirent =
  d_size :: uint32
  d_name :: string
  d_time :: uint32
  d_attr :: uint32

text \<open>One element of the handle table \<^verbatim>\<open>fh\<close>; its field \<^verbatim>\<open>file\<close> is \<open>hfile\<close> here.\<close>

record handle =
  hfile :: addr
  dir :: uint32
  ptr :: uint32
  dirent :: dirent
  omode :: uint32

text \<open>
  The module's static variables and the heap. \<open>fh\<close> is the table; its length is
  \<^verbatim>\<open>FS_RAMDISK_MAX_FILES\<close>, a constant of a header that is not at hand, so every
  definition below reads it off the table. \<open>heap\<close> is the behaviour of the kernel's
  allocator, which is outside this module: the addresses its next calls will return,
  in order, \<open>NULL\<close> standing for a call that fails.
\<close>

record ramdisk =
  files :: "addr \<rightharpoonup> rd_file"
  lists :: "addr \<rightharpoonup> addr list"
  blocks :: "addr \<rightharpoonup> uint8 list"
  fh :: "handle list"
  root :: addr
  rootdir :: addr
  heap :: "addr list"

text \<open>
  What a call gives back besides a proper result. \<open>Failed\<close> is the sentinel (\<^verbatim>\<open>-1\<close> or
  \<^verbatim>\<open>NULL\<close>) returned without touching \<^verbatim>\<open>errno\<close>; \<open>EBADF\<close>, \<open>EINVAL\<close> and \<open>ENOENT\<close> are the
  sentinel returned with \<^verbatim>\<open>errno\<close> set so. \<open>Abort\<close> is a failed \<^verbatim>\<open>assert\<close>. \<open>Fault\<close> marks
  the places where the C program has no defined behaviour: an access through a
  pointer to no live object, or a copy that leaves its block.
\<close>

datatype error = Failed | EBADF | EINVAL | ENOENT | Abort | Fault

subsection \<open>The allocator\<close>

definition unused :: "ramdisk \<Rightarrow> addr \<Rightarrow> bool" where
  "unused s a \<longleftrightarrow> a \<noteq> NULL \<and> files s a = None \<and> lists s a = None \<and> blocks s a = None"

text \<open>
  One call of the allocator: it returns the next planned address when that address
  is free, and \<open>NULL\<close> otherwise (also when nothing is planned).
\<close>

definition next_alloc :: "ramdisk \<Rightarrow> addr \<times> ramdisk" where
  "next_alloc s =
     (case heap s of
        [] \<Rightarrow> (NULL, s)
      | a # q \<Rightarrow> (if unused s a then a else NULL, s\<lparr>heap := q\<rparr>))"

text \<open>\<^verbatim>\<open>malloc(n)\<close> for a data block; a fresh block is filled with zeros here.\<close>

definition malloc :: "ramdisk \<Rightarrow> nat \<Rightarrow> addr \<times> ramdisk" where
  "malloc s n =
     (case next_alloc s of
        (a, s') \<Rightarrow>
          if a = NULL then (NULL, s')
          else (a, s'\<lparr>blocks := (blocks s')(a \<mapsto> replicate n 0)\<rparr>))"

text \<open>\<^verbatim>\<open>free(p)\<close> for a data block; \<^verbatim>\<open>free(NULL)\<close> does nothing.\<close>

definition free :: "ramdisk \<Rightarrow> addr \<Rightarrow> ramdisk" where
  "free s p = s\<lparr>blocks := (blocks s)(p := None)\<rparr>"

text \<open>
  \<^verbatim>\<open>realloc(p, n)\<close>: on failure nothing changes; on success the block has \<open>n\<close> bytes, the
  old contents up to the smaller size, at the old or at a new address.
  \<^verbatim>\<open>realloc(NULL, n)\<close> is \<^verbatim>\<open>malloc(n)\<close>.
\<close>

definition realloc :: "ramdisk \<Rightarrow> addr \<Rightarrow> nat \<Rightarrow> (error + addr) \<times> ramdisk" where
  "realloc s p n =
     (if p = NULL then (case malloc s n of (a, s') \<Rightarrow> (Inr a, s'))
      else
        (case blocks s p of
           None \<Rightarrow> (Inl Fault, s)
         | Some old \<Rightarrow>
             (case heap s of
                [] \<Rightarrow> (Inr NULL, s)
              | a # q \<Rightarrow>
                  if a = p \<or> unused s a
                  then (Inr a, s\<lparr>heap := q,
                          blocks := ((blocks s)(p := None))(a \<mapsto> take n old @ replicate (n - length old) 0)\<rparr>)
                  else (Inr NULL, s\<lparr>heap := q\<rparr>))))"

subsection \<open>Strings\<close>

definition strlen :: "string \<Rightarrow> nat" where
  "strlen s = length s"

text \<open>\<^verbatim>\<open>strchr\<close> and \<^verbatim>\<open>strrchr\<close>: the offset of the first and of the last occurrence.\<close>

definition strchr :: "string \<Rightarrow> char \<Rightarrow> nat option" where
  "strchr s c = (if c \<in> set s then Some (length (takeWhile (\<lambda>x. x \<noteq> c) s)) else None)"

definition strrchr :: "string \<Rightarrow> char \<Rightarrow> nat option" where
  "strrchr s c =
     (if c \<in> set s then Some (length s - 1 - length (takeWhile (\<lambda>x. x \<noteq> c) (rev s))) else None)"

definition tolower :: "char \<Rightarrow> char" where
  "tolower c =
     (let n = (of_char c :: nat) in if 65 \<le> n \<and> n \<le> 90 then char_of (n + 32) else c)"

text \<open>
  \<^verbatim>\<open>strncasecmp\<close>: zero exactly when the first \<open>n\<close> characters agree up to case. The
  source only tests the result against zero, so the sign of a difference is not
  modelled.
\<close>

definition strncasecmp :: "string \<Rightarrow> string \<Rightarrow> nat \<Rightarrow> int" where
  "strncasecmp a b n = (if map tolower (take n a) = map tolower (take n b) then 0 else 1)"

subsection \<open>Path resolution\<close>

text \<open>
  The lists of \<^verbatim>\<open><sys/queue.h>\<close> are sequences of entry addresses: \<^verbatim>\<open>LIST_FOREACH\<close> visits
  them in order, \<^verbatim>\<open>LIST_INSERT_HEAD\<close> puts an entry in front, \<^verbatim>\<open>LIST_REMOVE\<close> takes it out,
  \<^verbatim>\<open>LIST_FIRST\<close> and \<^verbatim>\<open>LIST_NEXT\<close> are the first entry and the one after a given one, or
  \<open>NULL\<close>.
\<close>

fun find_entries :: "(addr \<rightharpoonup> rd_file) \<Rightarrow> addr list \<Rightarrow> string \<Rightarrow> nat \<Rightarrow> error + addr" where
  "find_entries fs [] nm namelen = Inr NULL"
| "find_entries fs (f # rest) nm namelen =
     (case fs f of
        None \<Rightarrow> Inl Fault
      | Some e \<Rightarrow>
          if strlen (name e) = namelen \<and> strncasecmp nm (name e) namelen = 0 then Inr f
          else find_entries fs rest nm namelen)"

definition ramdisk_find :: "ramdisk \<Rightarrow> addr \<Rightarrow> string \<Rightarrow> nat \<Rightarrow> error + addr" where
  "ramdisk_find s parent nm namelen =
     (case lists s parent of
        None \<Rightarrow> Inl Fault
      | Some es \<Rightarrow> find_entries (files s) es nm namelen)"

text \<open>
  \<^verbatim>\<open>ramdisk_find_path\<close>. \<open>find_path_from\<close> is the \<^verbatim>\<open>while\<close> loop with the code after it: its
  arguments are the loop's variables \<^verbatim>\<open>parent\<close>, \<^verbatim>\<open>f\<close> and \<^verbatim>\<open>fn\<close>.
\<close>

function find_path_from :: "ramdisk \<Rightarrow> addr \<Rightarrow> addr \<Rightarrow> string \<Rightarrow> uint32 \<Rightarrow> error + addr" where
  "find_path_from s parent f fn d =
     (case strchr fn CHR ''/'' of
        Some cur \<Rightarrow>
          if cur \<noteq> 0 then
            (case ramdisk_find s parent fn cur of
               Inl e \<Rightarrow> Inl e
             | Inr f' \<Rightarrow>
                 if f' = NULL then Inr NULL
                 else
                   (case files s f' of
                      None \<Rightarrow> Inl Fault
                    | Some e \<Rightarrow>
                        if ftype e \<noteq> STAT_TYPE_DIR then Inr NULL
                        else if data e = NULL then Inl Abort
                        else find_path_from s (data e) f' (drop (cur + 1) fn) d))
          else find_path_from s parent f (drop (cur + 1) fn) d
      | None \<Rightarrow>
          if fn \<noteq> [] then
            (case ramdisk_find s parent fn (strlen fn) of
               Inl e \<Rightarrow> Inl e
             | Inr f' \<Rightarrow>
                 if f' = NULL then Inr NULL
                 else
                   (case files s f' of
                      None \<Rightarrow> Inl Fault
                    | Some e \<Rightarrow>
                        if (d = 0 \<and> ftype e = STAT_TYPE_DIR) \<or> (d \<noteq> 0 \<and> ftype e \<noteq> STAT_TYPE_DIR)
                        then Inr NULL
                        else Inr f'))
          else if d = 0 then Inr NULL
          else Inr f)"
  by pat_completeness auto
termination
  by (relation "measure (\<lambda>(s, parent, f, fn, d). length fn)")
     (auto simp: strchr_def split: if_splits dest: length_pos_if_in_set)

definition ramdisk_find_path :: "ramdisk \<Rightarrow> addr \<Rightarrow> string \<Rightarrow> uint32 \<Rightarrow> error + addr" where
  "ramdisk_find_path s parent fn d = find_path_from s parent NULL fn d"

definition LIST_FIRST :: "ramdisk \<Rightarrow> addr \<Rightarrow> error + addr" where
  "LIST_FIRST s head =
     (case lists s head of
        None \<Rightarrow> Inl Fault
      | Some es \<Rightarrow> Inr (case es of [] \<Rightarrow> NULL | x # rest \<Rightarrow> x))"

definition LIST_NEXT :: "ramdisk \<Rightarrow> addr \<Rightarrow> error + addr" where
  "LIST_NEXT s elm =
     (case files s elm of
        None \<Rightarrow> Inl Fault
      | Some e \<Rightarrow>
          (case lists s (dirlist e) of
             None \<Rightarrow> Inl Fault
           | Some es \<Rightarrow>
               (case dropWhile (\<lambda>x. x \<noteq> elm) es of
                  [] \<Rightarrow> Inl Fault
                | x # [] \<Rightarrow> Inr NULL
                | x # y # rest \<Rightarrow> Inr y)))"

definition LIST_INSERT_HEAD :: "ramdisk \<Rightarrow> addr \<Rightarrow> addr \<Rightarrow> error + ramdisk" where
  "LIST_INSERT_HEAD s head elm =
     (case lists s head of
        None \<Rightarrow> Inl Fault
      | Some es \<Rightarrow>
          (case files s elm of
             None \<Rightarrow> Inl Fault
           | Some e \<Rightarrow>
               Inr (s\<lparr>lists := (lists s)(head \<mapsto> elm # es),
                       files := (files s)(elm \<mapsto> e\<lparr>dirlist := head\<rparr>)\<rparr>)))"

definition LIST_REMOVE :: "ramdisk \<Rightarrow> addr \<Rightarrow> error + ramdisk" where
  "LIST_REMOVE s elm =
     (case files s elm of
        None \<Rightarrow> Inl Fault
      | Some e \<Rightarrow>
          (case lists s (dirlist e) of
             None \<Rightarrow> Inl Fault
           | Some es \<Rightarrow>
               if elm \<in> set es then Inr (s\<lparr>lists := (lists s)(dirlist e \<mapsto> remove1 elm es)\<rparr>)
               else Inl Fault))"

text \<open>
  \<^verbatim>\<open>strdup\<close>: the copy is the string itself; the allocator only decides whether the call
  fails.
\<close>

definition strdup :: "ramdisk \<Rightarrow> string \<Rightarrow> string option \<times> ramdisk" where
  "strdup s str =
     (case heap s of
        [] \<Rightarrow> (None, s)
      | a # q \<Rightarrow> (if a = NULL then None else Some str, s\<lparr>heap := q\<rparr>))"

text \<open>
  \<^verbatim>\<open>ramdisk_get_parent\<close>: \<open>Inr None\<close> is the return value \<^verbatim>\<open>-1\<close>, \<open>Inr (Some (dout, fnout))\<close> the
  return value 0 with the two out-parameters. The block for \<^verbatim>\<open>pname\<close> is allocated
  unchecked and released before the function returns.
\<close>

definition ramdisk_get_parent ::
  "ramdisk \<Rightarrow> addr \<Rightarrow> string \<Rightarrow> (error + (addr \<times> string) option) \<times> ramdisk" where
  "ramdisk_get_parent s parent fn =
     (case strrchr fn CHR ''/'' of
        None \<Rightarrow> (Inr (Some (parent, fn)), s)
      | Some p \<Rightarrow>
          (case next_alloc s of
             (pname, s1) \<Rightarrow>
               if pname = NULL then (Inl Fault, s1)
               else
                 (case ramdisk_find_path s1 parent (take p fn) 1 of
                    Inl e \<Rightarrow> (Inl e, s1)
                  | Inr f \<Rightarrow>
                      if f = NULL then (Inr None, s1)
                      else
                        (case files s1 f of
                           None \<Rightarrow> (Inl Fault, s1)
                         | Some e \<Rightarrow>
                             if data e = NULL then (Inl Abort, s1)
                             else (Inr (Some (data e, drop (p + 1) fn)), s1)))))"

text \<open>
  \<^verbatim>\<open>ramdisk_create_file\<close>. The \<^verbatim>\<open>rd_file_t\<close> is registered in \<open>files\<close> as soon as it is
  allocated; its fields are written together once the data block is there.
\<close>

definition blank_file :: rd_file where
  "blank_file = \<lparr>name = [], fsize = 0, ftype = 0, openfor = 0, usage = 0, data = NULL,
     datasize = 0, dirlist = NULL\<rparr>"

definition ramdisk_create_file ::
  "ramdisk \<Rightarrow> addr \<Rightarrow> string \<Rightarrow> uint32 \<Rightarrow> (error + addr) \<times> ramdisk" where
  "ramdisk_create_file s parent fn d =
     (case ramdisk_get_parent s parent fn of
        (Inl e, s1) \<Rightarrow> (Inl e, s1)
      | (Inr None, s1) \<Rightarrow> (Inr NULL, s1)
      | (Inr (Some (pdir, p)), s1) \<Rightarrow>
          (case next_alloc s1 of
             (f, s2) \<Rightarrow>
               if f = NULL then (Inr NULL, s2)
               else
                 (case strdup (s2\<lparr>files := (files s2)(f \<mapsto> blank_file)\<rparr>) p of
                    (None, s3) \<Rightarrow> (Inr NULL, s3\<lparr>files := (files s3)(f := None)\<rparr>)
                  | (Some nm, s3) \<Rightarrow>
                      (case (if d = 0 then malloc s3 1024
                             else (case next_alloc s3 of
                                     (a, s') \<Rightarrow>
                                       if a = NULL then (NULL, s')
                                       else (a, s'\<lparr>lists := (lists s')(a \<mapsto> [])\<rparr>))) of
                         (blk, s4) \<Rightarrow>
                           if blk = NULL then (Inr NULL, s4\<lparr>files := (files s4)(f := None)\<rparr>)
                           else
                             (case LIST_INSERT_HEAD
                                     (s4\<lparr>files := (files s4)(f \<mapsto>
                                        \<lparr>name = nm, fsize = 0,
                                         ftype = (if d \<noteq> 0 then STAT_TYPE_DIR else STAT_TYPE_FILE),
                                         openfor = OPENFOR_NOTHING, usage = 0, data = blk,
                                         datasize = (if d = 0 then 1024 else 0),
                                         dirlist = NULL\<rparr>)\<rparr>)
                                     pdir f of
                                Inl e \<Rightarrow> (Inl e, s4)
                              | Inr s5 \<Rightarrow> (Inr f, s5))))))"

subsection \<open>Open and close\<close>

text \<open>The search for a free handle, \<^verbatim>\<open>for(fd = 1; fd < FS_RAMDISK_MAX_FILES; fd++)\<close>.\<close>

function scan_fd :: "handle list \<Rightarrow> nat \<Rightarrow> nat" where
  "scan_fd hs fd =
     (if fd < length hs then (if hfile (hs ! fd) = NULL then fd else scan_fd hs (fd + 1))
      else fd)"
  by pat_completeness auto
termination
  by (relation "measure (\<lambda>(hs, fd). length hs - fd)") auto

text \<open>
  The lookup at the start of \<^verbatim>\<open>ramdisk_open\<close>, with the creation of a missing file; the
  result \<open>Inr NULL\<close> is the jump to \<^verbatim>\<open>error_out\<close>.
\<close>

definition open_lookup :: "ramdisk \<Rightarrow> string \<Rightarrow> uint32 \<Rightarrow> (error + addr) \<times> ramdisk" where
  "open_lookup s fn mode =
     (if fn = [] then (Inr (root s), s)
      else
        (case ramdisk_find_path s (rootdir s) fn (mode AND O_DIR) of
           Inl e \<Rightarrow> (Inl e, s)
         | Inr f \<Rightarrow>
             if f = NULL then
               (if mode AND O_MODE_MASK \<noteq> O_RDONLY \<and> mode AND O_DIR = 0
                then ramdisk_create_file s (rootdir s) fn (mode AND O_DIR)
                else (Inr NULL, s))
             else (Inr f, s)))"

text \<open>
  The end of a successful \<^verbatim>\<open>ramdisk_open\<close>: the cursor of a directory handle, the usage
  count, and the handle as the result. \<open>e\<close> and \<open>h\<close> are the file and the handle table
  entry as changed so far.
\<close>

definition open_finish ::
  "ramdisk \<Rightarrow> addr \<Rightarrow> rd_file \<Rightarrow> nat \<Rightarrow> handle \<Rightarrow> uint32 \<Rightarrow> (error + int) \<times> ramdisk" where
  "open_finish s f e fd h mode =
     (case (if mode AND O_DIR \<noteq> 0 then LIST_FIRST s (data e) else Inr (ptr h)) of
        Inl er \<Rightarrow> (Inl er, s)
      | Inr p \<Rightarrow>
          (Inr (int fd),
           s\<lparr>files := (files s)(f \<mapsto> e\<lparr>usage := usage e + 1\<rparr>),
             fh := (fh s)[fd := h\<lparr>ptr := p\<rparr>]\<rparr>))"

text \<open>\<^verbatim>\<open>ramdisk_open\<close> from the test of the lock on, for the file \<open>f\<close> and the free handle \<open>fd\<close>.\<close>

definition open_commit :: "ramdisk \<Rightarrow> addr \<Rightarrow> nat \<Rightarrow> uint32 \<Rightarrow> (error + int) \<times> ramdisk" where
  "open_commit s f fd mode =
     (case files s f of
        None \<Rightarrow> (Inl Fault, s)
      | Some e \<Rightarrow>
          if openfor e = OPENFOR_WRITE
          then (Inl Failed, s\<lparr>fh := (fh s)[fd := (fh s ! fd)\<lparr>hfile := NULL\<rparr>]\<rparr>)
          else
            (let mm = mode AND O_MODE_MASK;
                 h = (fh s ! fd)\<lparr>hfile := f, dir := mode AND O_DIR, omode := mode\<rparr>
             in if mm = O_RDONLY
                then open_finish s f (e\<lparr>openfor := OPENFOR_READ\<rparr>) fd (h\<lparr>ptr := 0\<rparr>) mode
                else if mm AND O_RDWR \<noteq> 0 \<or> mm AND O_WRONLY \<noteq> 0 then
                  (if openfor e = OPENFOR_READ
                   then (Inl Failed, s\<lparr>fh := (fh s)[fd := h\<lparr>hfile := NULL\<rparr>]\<rparr>)
                   else if mode AND O_APPEND \<noteq> 0
                   then open_finish s f (e\<lparr>openfor := OPENFOR_WRITE\<rparr>) fd (h\<lparr>ptr := fsize e\<rparr>) mode
                   else if mode AND O_TRUNC \<noteq> 0
                   then
                     (case malloc (free s (data e)) 1024 of
                        (blk, s1) \<Rightarrow>
                          open_finish s1 f
                            (e\<lparr>openfor := OPENFOR_WRITE, data := blk, datasize := 1024, fsize := 0\<rparr>)
                            fd (h\<lparr>ptr := 0\<rparr>) mode)
                   else open_finish s f (e\<lparr>openfor := OPENFOR_WRITE\<rparr>) fd (h\<lparr>ptr := 0\<rparr>) mode)
                else (Inl Abort, s\<lparr>fh := (fh s)[fd := h]\<rparr>)))"

text \<open>
  \<^verbatim>\<open>ramdisk_open\<close>. The result is the handle, or \<open>Failed\<close> for \<^verbatim>\<open>NULL\<close>. The mutex is not
  modelled: every function is one atomic step.
\<close>

definition ramdisk_open :: "ramdisk \<Rightarrow> string \<Rightarrow> uint32 \<Rightarrow> (error + int) \<times> ramdisk" where
  "ramdisk_open s path mode =
     (let fn = (if path \<noteq> [] \<and> hd path = CHR ''/'' then tl path else path);
          mm = mode AND O_MODE_MASK
      in if mode AND O_DIR \<noteq> 0 \<and> mm \<noteq> O_RDONLY then (Inl Failed, s)
         else if root s = NULL then (Inl Abort, s)
         else
           (case open_lookup s fn mode of
              (Inl e, s1) \<Rightarrow> (Inl e, s1)
            | (Inr f, s1) \<Rightarrow>
                if f = NULL then (Inl Failed, s1)
                else
                  (case files s1 f of
                     None \<Rightarrow> (Inl Fault, s1)
                   | Some e \<Rightarrow>
                       if ftype e = STAT_TYPE_DIR \<and> (mode AND O_DIR = 0 \<or> mm \<noteq> O_RDONLY)
                       then (Inl Failed, s1)
                       else
                         (let fd = scan_fd (fh s1) 1
                          in if fd \<ge> length (fh s1) then (Inl Failed, s1)
                             else open_commit s1 f fd mode))))"

text \<open>
  \<^verbatim>\<open>ramdisk_close\<close>. A handle is the \<^verbatim>\<open>file_t\<close> the source casts it to, a signed integer; the
  source tests it against the table's length only, so a negative one indexes outside
  the table.
\<close>

definition ramdisk_close :: "ramdisk \<Rightarrow> int \<Rightarrow> (error + int) \<times> ramdisk" where
  "ramdisk_close s h =
     (if h < 0 then (Inl Fault, s)
      else
        (let fd = nat h
         in if fd < length (fh s) \<and> hfile (fh s ! fd) \<noteq> NULL then
              (let f = hfile (fh s ! fd);
                   s1 = s\<lparr>fh := (fh s)[fd := (fh s ! fd)\<lparr>hfile := NULL\<rparr>]\<rparr>
               in case files s1 f of
                    None \<Rightarrow> (Inl Fault, s1)
                  | Some e \<Rightarrow>
                      if usage e - 1 < 0
                      then (Inl Abort, s1\<lparr>files := (files s1)(f \<mapsto> e\<lparr>usage := usage e - 1\<rparr>)\<rparr>)
                      else if usage e - 1 = 0
                      then (Inr 0, s1\<lparr>files := (files s1)(f \<mapsto>
                                     e\<lparr>usage := usage e - 1, openfor := OPENFOR_NOTHING\<rparr>)\<rparr>)
                      else (Inr 0, s1\<lparr>files := (files s1)(f \<mapsto> e\<lparr>usage := usage e - 1\<rparr>)\<rparr>))
            else (Inr 0, s)))"

subsection \<open>Reading, writing and seeking\<close>

text \<open>
  \<^verbatim>\<open>ramdisk_read\<close>. The result is the return value with the bytes copied to \<^verbatim>\<open>buf\<close>. The copy
  takes \<open>bytes\<close> bytes of the data block from offset \<open>ptr\<close> on; it is a fault when they
  are not all inside the block.
\<close>

definition ramdisk_read ::
  "ramdisk \<Rightarrow> int \<Rightarrow> uint32 \<Rightarrow> (error + uint32 \<times> uint8 list) \<times> ramdisk" where
  "ramdisk_read s h bytes =
     (if h < 0 then (Inl Fault, s)
      else
        (let fd = nat h
         in if fd < length (fh s) \<and> hfile (fh s ! fd) \<noteq> NULL \<and> dir (fh s ! fd) = 0 then
              (case files s (hfile (fh s ! fd)) of
                 None \<Rightarrow> (Inl Fault, s)
               | Some e \<Rightarrow>
                   (let p = ptr (fh s ! fd);
                        n = (if p + bytes > fsize e then fsize e - p else bytes)
                    in case blocks s (data e) of
                         None \<Rightarrow> (Inl Fault, s)
                       | Some blk \<Rightarrow>
                           if unat p + unat n \<le> length blk
                           then (Inr (n, take (unat n) (drop (unat p) blk)),
                                 s\<lparr>fh := (fh s)[fd := (fh s ! fd)\<lparr>ptr := p + n\<rparr>]\<rparr>)
                           else (Inl Fault, s)))
            else (Inl Failed, s)))"

text \<open>
  \<^verbatim>\<open>ramdisk_write\<close>; \<open>buf\<close> is the caller's buffer, of which \<open>bytes\<close> bytes are copied to offset
  \<open>ptr\<close> of the data block. It is a fault when the buffer is shorter or the bytes do
  not fit the block.
\<close>

definition ramdisk_write ::
  "ramdisk \<Rightarrow> int \<Rightarrow> uint8 list \<Rightarrow> uint32 \<Rightarrow> (error + uint32) \<times> ramdisk" where
  "ramdisk_write s h buf bytes =
     (if h < 0 then (Inl Fault, s)
      else
        (let fd = nat h
         in if fd < length (fh s) \<and> hfile (fh s ! fd) \<noteq> NULL \<and> dir (fh s ! fd) = 0 then
              (case files s (hfile (fh s ! fd)) of
                 None \<Rightarrow> (Inl Fault, s)
               | Some e \<Rightarrow>
                   if openfor e = OPENFOR_WRITE then
                     (let f = hfile (fh s ! fd);
                          p = ptr (fh s ! fd)
                      in case (if p + bytes > datasize e
                               then (case realloc s (data e) (unat (p + bytes + 4096)) of
                                       (Inl er, s1) \<Rightarrow> (Inl er, s1)
                                     | (Inr np, s1) \<Rightarrow>
                                         if np = NULL then (Inl Failed, s1)
                                         else (Inr (e\<lparr>data := np, datasize := p + bytes + 4096\<rparr>), s1))
                               else (Inr e, s)) of
                           (Inl er, s1) \<Rightarrow> (Inl er, s1)
                         | (Inr e1, s1) \<Rightarrow>
                             (case blocks s1 (data e1) of
                                None \<Rightarrow> (Inl Fault, s1)
                              | Some blk \<Rightarrow>
                                  if unat p + unat bytes \<le> length blk \<and> unat bytes \<le> length buf
                                  then
                                    (Inr bytes,
                                     s1\<lparr>blocks := (blocks s1)(data e1 \<mapsto>
                                            take (unat p) blk @ take (unat bytes) buf
                                              @ drop (unat p + unat bytes) blk),
                                        fh := (fh s1)[fd := (fh s1 ! fd)\<lparr>ptr := p + bytes\<rparr>],
                                        files := (files s1)(f \<mapsto>
                                            (if fsize e1 < p + bytes then e1\<lparr>fsize := p + bytes\<rparr>
                                             else e1))\<rparr>)
                                  else (Inl Fault, s1)))
                   else (Inl Failed, s))
            else (Inl Failed, s)))"

text \<open>
  \<^verbatim>\<open>ramdisk_seek\<close>. \<open>offset\<close> is an \<^verbatim>\<open>off_t\<close>, read as signed; \<^verbatim>\<open>(uint32)-offset\<close> is the
  negated word.
\<close>

definition ramdisk_seek :: "ramdisk \<Rightarrow> int \<Rightarrow> uint32 \<Rightarrow> int \<Rightarrow> (error + uint32) \<times> ramdisk" where
  "ramdisk_seek s h offset whence =
     (if h < 0 then (Inl Fault, s)
      else
        (let fd = nat h
         in if fd \<ge> length (fh s) \<or> hfile (fh s ! fd) = NULL \<or> dir (fh s ! fd) \<noteq> 0
            then (Inl EBADF, s)
            else
              (let p = ptr (fh s ! fd);
                   fl = files s (hfile (fh s ! fd))
               in case (if whence = SEEK_SET
                        then (if sint offset < 0 then Inl EINVAL else Inr offset)
                        else if whence = SEEK_CUR
                        then (if sint offset < 0 \<and> - offset > p then Inl EINVAL
                              else Inr (p + offset))
                        else if whence = SEEK_END
                        then (case fl of
                                None \<Rightarrow> Inl Fault
                              | Some e \<Rightarrow>
                                  if sint offset < 0 \<and> - offset > fsize e then Inl EINVAL
                                  else Inr (fsize e + offset))
                        else Inl EINVAL) of
                    Inl er \<Rightarrow> (Inl er, s)
                  | Inr p1 \<Rightarrow>
                      (case fl of
                         None \<Rightarrow> (Inl Fault, s)
                       | Some e \<Rightarrow>
                           (let p2 = (if p1 > fsize e then fsize e else p1)
                            in (Inr p2, s\<lparr>fh := (fh s)[fd := (fh s ! fd)\<lparr>ptr := p2\<rparr>]\<rparr>))))))"

definition ramdisk_tell :: "ramdisk \<Rightarrow> int \<Rightarrow> error + uint32" where
  "ramdisk_tell s h =
     (if h < 0 then Inl Fault
      else
        (let fd = nat h
         in if fd < length (fh s) \<and> hfile (fh s ! fd) \<noteq> NULL \<and> dir (fh s ! fd) = 0
            then Inr (ptr (fh s ! fd))
            else Inl Failed))"

definition ramdisk_total :: "ramdisk \<Rightarrow> int \<Rightarrow> error + uint32" where
  "ramdisk_total s h =
     (if h < 0 then Inl Fault
      else
        (let fd = nat h
         in if fd < length (fh s) \<and> hfile (fh s ! fd) \<noteq> NULL \<and> dir (fh s ! fd) = 0
            then (case files s (hfile (fh s ! fd)) of
                    None \<Rightarrow> Inl Fault
                  | Some e \<Rightarrow> Inr (fsize e))
            else Inl Failed))"

subsection \<open>Directories\<close>

text \<open>
  \<^verbatim>\<open>ramdisk_readdir\<close>. The cursor of a directory handle is the address of the next entry.
  The result is the handle's \<^verbatim>\<open>dirent\<close> as filled in; the length of its name array is not
  modelled.
\<close>

definition ramdisk_readdir :: "ramdisk \<Rightarrow> int \<Rightarrow> (error + dirent) \<times> ramdisk" where
  "ramdisk_readdir s h =
     (if h < 0 then (Inl Fault, s)
      else
        (let fd = nat h
         in if fd < length (fh s) \<and> hfile (fh s ! fd) \<noteq> NULL \<and> ptr (fh s ! fd) \<noteq> 0
               \<and> dir (fh s ! fd) \<noteq> 0
            then
              (let f = ptr (fh s ! fd)
               in case LIST_NEXT s f of
                    Inl er \<Rightarrow> (Inl er, s)
                  | Inr nxt \<Rightarrow>
                      (case files s f of
                         None \<Rightarrow> (Inl Fault, s)
                       | Some e \<Rightarrow>
                           (let de = (dirent (fh s ! fd))\<lparr>d_name := name e, d_time := 0,
                                       d_attr := (if ftype e = STAT_TYPE_DIR then O_DIR else 0),
                                       d_size := (if ftype e = STAT_TYPE_DIR then - 1 else fsize e)\<rparr>
                            in (Inr de,
                                s\<lparr>fh := (fh s)[fd := (fh s ! fd)\<lparr>ptr := nxt, dirent := de\<rparr>]\<rparr>))))
            else (Inl EBADF, s)))"

definition ramdisk_rewinddir :: "ramdisk \<Rightarrow> int \<Rightarrow> (error + int) \<times> ramdisk" where
  "ramdisk_rewinddir s h =
     (if h < 0 then (Inl Fault, s)
      else
        (let fd = nat h
         in if fd \<ge> length (fh s) \<or> hfile (fh s ! fd) = NULL \<or> dir (fh s ! fd) = 0
            then (Inl EBADF, s)
            else
              (case files s (hfile (fh s ! fd)) of
                 None \<Rightarrow> (Inl Fault, s)
               | Some e \<Rightarrow>
                   (case LIST_FIRST s (data e) of
                      Inl er \<Rightarrow> (Inl er, s)
                    | Inr p \<Rightarrow> (Inr 0, s\<lparr>fh := (fh s)[fd := (fh s ! fd)\<lparr>ptr := p\<rparr>]\<rparr>)))))"

text \<open>\<^verbatim>\<open>ramdisk_unlink\<close>: the name needs no step of its own, it goes with the record.\<close>

definition ramdisk_unlink :: "ramdisk \<Rightarrow> string \<Rightarrow> (error + int) \<times> ramdisk" where
  "ramdisk_unlink s fn =
     (case ramdisk_find_path s (rootdir s) fn 0 of
        Inl er \<Rightarrow> (Inl er, s)
      | Inr f \<Rightarrow>
          if f \<noteq> NULL then
            (case files s f of
               None \<Rightarrow> (Inl Fault, s)
             | Some e \<Rightarrow>
                 if usage e = 0 then
                   (case LIST_REMOVE (free s (data e)) f of
                      Inl er \<Rightarrow> (Inl er, s)
                    | Inr s1 \<Rightarrow> (Inr 0, s1\<lparr>files := (files s1)(f := None)\<rparr>))
                 else (Inl Failed, s))
          else (Inl Failed, s))"

subsection \<open>Stat\<close>

text \<open>The fields of \<^verbatim>\<open>struct stat\<close> the source sets; the others are zeroed by \<^verbatim>\<open>memset\<close>.\<close>

record stat =
  st_dev :: uint32
  st_mode :: uint32
  st_size :: uint32
  st_nlink :: uint32
  st_blksize :: uint32
  st_blocks :: uint32

definition stat_dev :: uint32 where
  "stat_dev = 0x72 OR push_bit 8 0x61 OR push_bit 16 0x6d"

definition ramdisk_stat :: "ramdisk \<Rightarrow> string \<Rightarrow> error + stat" where
  "ramdisk_stat s path =
     (let len = strlen path
      in if len = 0 \<or> (len = 1 \<and> hd path = CHR ''/'')
         then Inr \<lparr>st_dev = stat_dev, st_mode = S_IFDIR OR S_IRWXU OR S_IRWXG OR S_IRWXO,
                  st_size = - 1, st_nlink = 2, st_blksize = 0, st_blocks = 0\<rparr>
         else
           (case ramdisk_find_path s (rootdir s) path 0 of
              Inl er \<Rightarrow> Inl er
            | Inr f \<Rightarrow>
                if f = NULL then Inl ENOENT
                else
                  (case files s f of
                     None \<Rightarrow> Inl Fault
                   | Some e \<Rightarrow>
                       Inr \<lparr>st_dev = stat_dev,
                            st_mode = (S_IRUSR OR S_IWUSR OR S_IRGRP OR S_IWGRP OR S_IROTH OR S_IWOTH)
                              OR (if ftype e = STAT_TYPE_DIR
                                  then S_IFDIR OR S_IXUSR OR S_IXGRP OR S_IXOTH else S_IFREG),
                            st_size = (if ftype e = STAT_TYPE_DIR then - 1 else datasize e),
                            st_nlink = (if ftype e = STAT_TYPE_DIR then 2 else 1),
                            st_blksize = 1024,
                            st_blocks = drop_bit 10 (datasize e)
                              + (if datasize e AND 0x3ff \<noteq> 0 then 1 else 0)\<rparr>)))"

definition ramdisk_fstat :: "ramdisk \<Rightarrow> int \<Rightarrow> error + stat" where
  "ramdisk_fstat s h =
     (if h < 0 then Inl Fault
      else
        (let fd = nat h
         in if fd \<ge> length (fh s) \<or> hfile (fh s ! fd) = NULL then Inl EBADF
            else
              (case files s (hfile (fh s ! fd)) of
                 None \<Rightarrow> Inl Fault
               | Some e \<Rightarrow>
                   Inr \<lparr>st_dev = stat_dev,
                        st_mode = (S_IRUSR OR S_IWUSR OR S_IRGRP OR S_IWGRP OR S_IROTH OR S_IWOTH)
                          OR (if ftype e = STAT_TYPE_DIR then S_IFDIR else S_IFREG),
                        st_size = (if ftype e = STAT_TYPE_DIR then - 1 else datasize e),
                        st_nlink = (if ftype e = STAT_TYPE_DIR then 2 else 1),
                        st_blksize = 1024,
                        st_blocks = drop_bit 10 (datasize e)
                          + (if datasize e AND 0x3ff \<noteq> 0 then 1 else 0)\<rparr>)))"

subsection \<open>Attach and detach\<close>

text \<open>
  \<^verbatim>\<open>fs_ramdisk_attach\<close>: \<open>obj\<close> is the address of the caller's block and \<open>sz\<close> its size. The
  result of the final \<^verbatim>\<open>ramdisk_close\<close> is dropped, as in the source.
\<close>

definition fs_ramdisk_attach ::
  "ramdisk \<Rightarrow> string \<Rightarrow> addr \<Rightarrow> uint32 \<Rightarrow> (error + int) \<times> ramdisk" where
  "fs_ramdisk_attach s fn obj sz =
     (case ramdisk_open s fn (O_WRONLY OR O_TRUNC) of
        (Inl er, s1) \<Rightarrow> (Inl er, s1)
      | (Inr fd, s1) \<Rightarrow>
          (let f = hfile (fh s1 ! nat fd)
           in case files s1 f of
                None \<Rightarrow> (Inl Fault, s1)
              | Some e \<Rightarrow>
                  (let s2 = free s1 (data e);
                       s3 = s2\<lparr>files := (files s2)(f \<mapsto> e\<lparr>data := obj, datasize := sz, fsize := sz\<rparr>)\<rparr>
                   in case ramdisk_close s3 fd of
                        (Inl er, s4) \<Rightarrow> (if er = Abort \<or> er = Fault then Inl er else Inr 0, s4)
                      | (Inr r, s4) \<Rightarrow> (Inr 0, s4))))"

text \<open>
  \<^verbatim>\<open>fs_ramdisk_detach\<close>: the result holds the two out-parameters \<^verbatim>\<open>*obj\<close> and \<^verbatim>\<open>*size\<close>. The
  block of 64 bytes is allocated unchecked; what \<^verbatim>\<open>ramdisk_close\<close> and \<^verbatim>\<open>ramdisk_unlink\<close>
  return is dropped.
\<close>

definition fs_ramdisk_detach ::
  "ramdisk \<Rightarrow> string \<Rightarrow> (error + addr \<times> uint32) \<times> ramdisk" where
  "fs_ramdisk_detach s fn =
     (case ramdisk_open s fn O_RDONLY of
        (Inl er, s1) \<Rightarrow> (Inl er, s1)
      | (Inr fd, s1) \<Rightarrow>
          (let f = hfile (fh s1 ! nat fd)
           in case files s1 f of
                None \<Rightarrow> (Inl Fault, s1)
              | Some e \<Rightarrow>
                  (case malloc s1 64 of
                     (blk, s2) \<Rightarrow>
                       (let s3 = s2\<lparr>files := (files s2)(f \<mapsto> e\<lparr>data := blk, datasize := 64, fsize := 64\<rparr>)\<rparr>
                        in case ramdisk_close s3 fd of
                             (Inl er, s4) \<Rightarrow> (Inl er, s4)
                           | (Inr r, s4) \<Rightarrow>
                               (case ramdisk_unlink s4 fn of
                                  (Inl er, s5) \<Rightarrow>
                                    (if er = Abort \<or> er = Fault then Inl er
                                     else Inr (data e, fsize e), s5)
                                | (Inr r', s5) \<Rightarrow> (Inr (data e, fsize e), s5))))))"

subsection \<open>Initialisation\<close>

definition zero_handle :: handle where
  "zero_handle = \<lparr>hfile = NULL, dir = 0, ptr = 0,
     dirent = \<lparr>d_size = 0, d_name = [], d_time = 0, d_attr = 0\<rparr>, omode = 0\<rparr>"

text \<open>
  The state before \<^verbatim>\<open>fs_ramdisk_init\<close>: the static variables are zero and nothing is
  allocated. \<open>n\<close> is \<^verbatim>\<open>FS_RAMDISK_MAX_FILES\<close> and \<open>plan\<close> the allocator's behaviour.
\<close>

definition boot :: "nat \<Rightarrow> addr list \<Rightarrow> ramdisk" where
  "boot n plan = \<lparr>files = Map.empty, lists = Map.empty, blocks = Map.empty,
     fh = replicate n zero_handle, root = NULL, rootdir = NULL, heap = plan\<rparr>"

text \<open>
  \<^verbatim>\<open>fs_ramdisk_init\<close>. Where an allocation fails the source returns with \<^verbatim>\<open>rootdir\<close> (and
  \<^verbatim>\<open>root\<close>) still holding the released address; the mutex and the registration with
  the VFS are outside the model.
\<close>

definition fs_ramdisk_init :: "ramdisk \<Rightarrow> ramdisk" where
  "fs_ramdisk_init s =
     (if rootdir s \<noteq> NULL then s
      else
        (case next_alloc s of
           (rd, s1) \<Rightarrow>
             if rd = NULL then s1\<lparr>rootdir := NULL\<rparr>
             else
               (case next_alloc (s1\<lparr>rootdir := rd, lists := (lists s1)(rd \<mapsto> [])\<rparr>) of
                  (r, s2) \<Rightarrow>
                    if r = NULL then s2\<lparr>root := NULL, lists := (lists s2)(rd := None)\<rparr>
                    else
                      (case strdup (s2\<lparr>root := r, files := (files s2)(r \<mapsto> blank_file)\<rparr>) ''/'' of
                         (None, s3) \<Rightarrow>
                           s3\<lparr>files := (files s3)(r := None), lists := (lists s3)(rd := None)\<rparr>
                       | (Some nm, s3) \<Rightarrow>
                           s3\<lparr>files := (files s3)(r \<mapsto>
                                  \<lparr>name = nm, fsize = 0, ftype = STAT_TYPE_DIR,
                                   openfor = OPENFOR_NOTHING, usage = 0, data = rd, datasize = 0,
                                   dirlist = NULL\<rparr>),
                              lists := (lists s3)(rd \<mapsto> []),
                              fh := replicate (length (fh s3)) zero_handle\<rparr>))))"

subsection \<open>Runs of the file system\<close>

text \<open>
  The calls that change the state. \<^verbatim>\<open>tell\<close>, \<^verbatim>\<open>total\<close>, \<^verbatim>\<open>stat\<close> and \<^verbatim>\<open>fstat\<close> only read it. A call
  that ends in a failed assertion or in undefined behaviour ends the run.
\<close>

datatype call =
    Call_open string uint32
  | Call_close int
  | Call_read int uint32
  | Call_write int "uint8 list" uint32
  | Call_seek int uint32 int
  | Call_readdir int
  | Call_rewinddir int
  | Call_unlink string
  | Call_attach string addr uint32
  | Call_detach string
  | Call_init

definition crashed :: "error + 'a \<Rightarrow> bool" where
  "crashed r \<longleftrightarrow> r = Inl Abort \<or> r = Inl Fault"

fun run_call :: "ramdisk \<Rightarrow> call \<Rightarrow> bool \<times> ramdisk" where
  "run_call s (Call_open fn mode) = (case ramdisk_open s fn mode of (r, s') \<Rightarrow> (crashed r, s'))"
| "run_call s (Call_close h) = (case ramdisk_close s h of (r, s') \<Rightarrow> (crashed r, s'))"
| "run_call s (Call_read h bytes) = (case ramdisk_read s h bytes of (r, s') \<Rightarrow> (crashed r, s'))"
| "run_call s (Call_write h buf bytes) =
     (case ramdisk_write s h buf bytes of (r, s') \<Rightarrow> (crashed r, s'))"
| "run_call s (Call_seek h offset whence) =
     (case ramdisk_seek s h offset whence of (r, s') \<Rightarrow> (crashed r, s'))"
| "run_call s (Call_readdir h) = (case ramdisk_readdir s h of (r, s') \<Rightarrow> (crashed r, s'))"
| "run_call s (Call_rewinddir h) = (case ramdisk_rewinddir s h of (r, s') \<Rightarrow> (crashed r, s'))"
| "run_call s (Call_unlink fn) = (case ramdisk_unlink s fn of (r, s') \<Rightarrow> (crashed r, s'))"
| "run_call s (Call_attach fn obj sz) =
     (case fs_ramdisk_attach s fn obj sz of (r, s') \<Rightarrow> (crashed r, s'))"
| "run_call s (Call_detach fn) = (case fs_ramdisk_detach s fn of (r, s') \<Rightarrow> (crashed r, s'))"
| "run_call s Call_init = (False, fs_ramdisk_init s)"

text \<open>
  The states a freshly initialised file system can get into: after an initialisation
  that succeeded, any sequence of calls; between them the allocator may change its
  mind about what it will return, and the callers may allocate blocks of their own.
\<close>

inductive reachable :: "ramdisk \<Rightarrow> bool" where
  reach_init:
    "files (fs_ramdisk_init (boot n plan)) (root (fs_ramdisk_init (boot n plan))) \<noteq> None
     \<Longrightarrow> reachable (fs_ramdisk_init (boot n plan))"
| reach_call: "reachable s \<Longrightarrow> run_call s c = (False, s') \<Longrightarrow> reachable s'"
| reach_heap: "reachable s \<Longrightarrow> reachable (s\<lparr>heap := plan\<rparr>)"
| reach_block: "reachable s \<Longrightarrow> unused s a \<Longrightarrow> reachable (s\<lparr>blocks := (blocks s)(a \<mapsto> bs)\<rparr>)"

subsection \<open>Example states\<close>

text \<open>
  A table of eight handles; the allocator gives the root's list head, the root and its
  name the addresses \<open>0x1000\<close>, \<open>0x2000\<close> and \<open>0x2100\<close>.
\<close>

definition fresh_fs :: ramdisk where
  "fresh_fs = fs_ramdisk_init (boot 8 [0x1000, 0x2000, 0x2100])"

text \<open>
  The same file system with the file \<^verbatim>\<open>blob\<close>, three bytes that a caller allocated at
  \<open>0x6000\<close> and attached: the allocator serves the record, the name, the first block and
  the block of the truncation.
\<close>

definition blob_fs :: ramdisk where
  "blob_fs = snd (fs_ramdisk_attach
     (fresh_fs\<lparr>heap := [0x3000, 0x3100, 0x4000, 0x5000],
        blocks := [0x6000 \<mapsto> [0xAA, 0xBB, 0xCC]]\<rparr>)
     ''blob'' 0x6000 3)"

text \<open>\<^verbatim>\<open>blob\<close> opened for reading (handle 1).\<close>

definition reader_fs :: ramdisk where
  "reader_fs = snd (ramdisk_open blob_fs ''blob'' O_RDONLY)"

text \<open>\<^verbatim>\<open>blob\<close> opened for writing (handle 1), without truncation.\<close>

definition writer_fs :: ramdisk where
  "writer_fs = snd (ramdisk_open blob_fs ''blob'' O_WRONLY)"

subsection \<open>The cursor a seek asks for\<close>

text \<open>
  The position a seek computes, in the words of the spec and over the integers:
  \<open>offset\<close> for set, \<open>cursor + offset\<close> for current, \<open>logical_size + offset\<close> for end.
\<close>

definition seek_target :: "int \<Rightarrow> int \<Rightarrow> int \<Rightarrow> int \<Rightarrow> int option" where
  "seek_target cur sz off whence =
     (if whence = SEEK_SET then Some off
      else if whence = SEEK_CUR then Some (cur + off)
      else if whence = SEEK_END then Some (sz + off)
      else None)"

subsection \<open>Notions used by the properties\<close>

text \<open>
  The path as \<^verbatim>\<open>ramdisk_open\<close> looks it up, and the node an open with the flags \<open>mode\<close>
  finds for it without creating one: the root for the empty path, what
  \<^verbatim>\<open>ramdisk_find_path\<close> returns otherwise.
\<close>

definition strip_slash :: "string \<Rightarrow> string" where
  "strip_slash path = (if path \<noteq> [] \<and> hd path = CHR ''/'' then tl path else path)"

definition resolves :: "ramdisk \<Rightarrow> string \<Rightarrow> uint32 \<Rightarrow> addr \<Rightarrow> bool" where
  "resolves s path mode f \<longleftrightarrow>
     f \<noteq> NULL \<and>
     (if strip_slash path = [] then f = root s
      else ramdisk_find_path s (rootdir s) (strip_slash path) (mode AND O_DIR) = Inr f)"

text \<open>The test \<^verbatim>\<open>(mm & O_RDWR) || (mm & O_WRONLY)\<close> of \<^verbatim>\<open>ramdisk_open\<close>.\<close>

definition wants_write :: "uint32 \<Rightarrow> bool" where
  "wants_write mode \<longleftrightarrow>
     (mode AND O_MODE_MASK) AND O_RDWR \<noteq> 0 \<or> (mode AND O_MODE_MASK) AND O_WRONLY \<noteq> 0"

text \<open>
  Two states that differ at most in the fields \<^verbatim>\<open>dir\<close> and \<^verbatim>\<open>omode\<close> of free handle slots.
\<close>

definition same_but_free_slots :: "ramdisk \<Rightarrow> ramdisk \<Rightarrow> bool" where
  "same_but_free_slots s s' \<longleftrightarrow>
     files s' = files s \<and> lists s' = lists s \<and> blocks s' = blocks s \<and> heap s' = heap s
     \<and> root s' = root s \<and> rootdir s' = rootdir s \<and> length (fh s') = length (fh s)
     \<and> (\<forall>i < length (fh s).
           hfile (fh s' ! i) = hfile (fh s ! i) \<and> ptr (fh s' ! i) = ptr (fh s ! i)
           \<and> dirent (fh s' ! i) = dirent (fh s ! i)
           \<and> (hfile (fh s ! i) \<noteq> NULL \<longrightarrow> fh s' ! i = fh s ! i))"

subsection \<open>The invariant of the reachable states\<close>

text \<open>
  The name as \<^verbatim>\<open>ramdisk_find\<close> compares it (\<^verbatim>\<open>strncasecmp\<close> ignores the case), and the entries
  of the root directory, the only directory there is: \<^verbatim>\<open>ramdisk_create_file\<close> is only called
  with \<^verbatim>\<open>dir = 0\<close>.
\<close>

definition lname :: "rd_file \<Rightarrow> string" where
  "lname e = map tolower (name e)"

definition entries :: "ramdisk \<Rightarrow> addr list" where
  "entries s = (case lists s (rootdir s) of None \<Rightarrow> [] | Some es \<Rightarrow> es)"

text \<open>
  The shape of the tree: the root is a directory node whose data is the list head
  \<^verbatim>\<open>rootdir\<close>; that list is the only one; its entries are distinct allocated files linked
  into it, with names that differ also when the case is ignored; there is no other node.
\<close>

definition tree_inv :: "ramdisk \<Rightarrow> bool" where
  "tree_inv s \<longleftrightarrow>
     root s \<noteq> NULL \<and> rootdir s \<noteq> NULL \<and> files s NULL = None
     \<and> (\<exists>r. files s (root s) = Some r \<and> ftype r = STAT_TYPE_DIR \<and> data r = rootdir s)
     \<and> (\<forall>d. d \<noteq> rootdir s \<longrightarrow> lists s d = None)
     \<and> lists s (rootdir s) = Some (entries s) \<and> distinct (entries s) \<and> root s \<notin> set (entries s)
     \<and> (\<forall>c\<in>set (entries s). \<exists>e. files s c = Some e \<and> ftype e = STAT_TYPE_FILE
            \<and> dirlist e = rootdir s)
     \<and> (\<forall>a. files s a \<noteq> None \<longrightarrow> a = root s \<or> a \<in> set (entries s))
     \<and> (\<forall>c\<in>set (entries s). \<forall>c'\<in>set (entries s). \<forall>e e'.
            files s c = Some e \<and> files s c' = Some e' \<and> lname e = lname e' \<longrightarrow> c = c')"

text \<open>
  The handles on a node, counted, and the bookkeeping of \<^verbatim>\<open>ramdisk_open\<close> and
  \<^verbatim>\<open>ramdisk_close\<close>: an occupied handle is on an allocated node, and it is a directory handle
  exactly on the root; a node's \<^verbatim>\<open>usage\<close> is the number of handles on it; its lock is
  \<open>NOTHING\<close> without handles, \<open>READ\<close> with handles opened \<^verbatim>\<open>O_RDONLY\<close>, \<open>WRITE\<close> with one
  handle opened otherwise.
\<close>

definition refs :: "ramdisk \<Rightarrow> addr \<Rightarrow> int" where
  "refs s a = int (length (filter (\<lambda>h. hfile h = a) (fh s)))"

definition handle_inv :: "ramdisk \<Rightarrow> bool" where
  "handle_inv s \<longleftrightarrow>
     (\<forall>h\<in>set (fh s). hfile h \<noteq> NULL \<longrightarrow>
        files s (hfile h) \<noteq> None \<and> (dir h \<noteq> 0 \<longleftrightarrow> hfile h = root s))
     \<and> (\<forall>a e. a \<noteq> NULL \<and> files s a = Some e \<longrightarrow>
           usage e = refs s a
           \<and> (openfor e = OPENFOR_NOTHING \<and> refs s a = 0
                \<or> openfor e = OPENFOR_READ \<and> 0 < refs s a
                \<or> openfor e = OPENFOR_WRITE \<and> refs s a = 1)
           \<and> (\<forall>h\<in>set (fh s). hfile h = a \<longrightarrow>
                 (omode h AND O_MODE_MASK = O_RDONLY \<longleftrightarrow> openfor e = OPENFOR_READ)))"

definition fs_inv :: "ramdisk \<Rightarrow> bool" where
  "fs_inv s \<longleftrightarrow> tree_inv s \<and> handle_inv s"

text \<open>
  The last component \<^verbatim>\<open>ramdisk_find_path\<close> looks up where the path has no directory part,
  and the node \<^verbatim>\<open>ramdisk_create_file\<close> makes for a file.
\<close>

definition leaf :: "string \<Rightarrow> string" where
  "leaf fn = dropWhile (\<lambda>c. c = CHR ''/'') fn"

definition new_file :: "string \<Rightarrow> addr \<Rightarrow> addr \<Rightarrow> rd_file" where
  "new_file nm blk head = \<lparr>name = nm, fsize = 0, ftype = STAT_TYPE_FILE,
     openfor = OPENFOR_NOTHING, usage = 0, data = blk, datasize = 1024, dirlist = head\<rparr>"

subsection \<open>Readers and writers\<close>

text \<open>
  The handles on the node \<open>a\<close> that were opened \<^verbatim>\<open>O_RDONLY\<close>, and those that were opened in
  another mode: \<^verbatim>\<open>ramdisk_open\<close> takes the lock for reading for the former and the lock for
  writing for all others.
\<close>

definition readers :: "ramdisk \<Rightarrow> addr \<Rightarrow> handle list" where
  "readers s a = filter (\<lambda>h. hfile h = a \<and> omode h AND O_MODE_MASK = O_RDONLY) (fh s)"

definition writers :: "ramdisk \<Rightarrow> addr \<Rightarrow> handle list" where
  "writers s a = filter (\<lambda>h. hfile h = a \<and> omode h AND O_MODE_MASK \<noteq> O_RDONLY) (fh s)"

subsection \<open>A file with a reader at its end\<close>

text \<open>
  The fresh file system with the file \<^verbatim>\<open>x\<close>, a block of 100 bytes that a caller allocated
  at \<open>0x6000\<close> and attached.
\<close>

definition big_fs :: ramdisk where
  "big_fs = snd (fs_ramdisk_attach
     (fresh_fs\<lparr>heap := [0x3000, 0x3100, 0x4000, 0x5000],
        blocks := [0x6000 \<mapsto> replicate 100 0x55]\<rparr>)
     ''x'' 0x6000 100)"

text \<open>
  \<^verbatim>\<open>x\<close> opened for reading (handle 1) with the cursor moved to the end by
  \<^verbatim>\<open>ramdisk_seek(1, 0, SEEK_END)\<close>; the allocator will serve one more block, at \<open>0x7000\<close>.
\<close>

definition at_end_fs :: ramdisk where
  "at_end_fs = snd (ramdisk_seek (snd (ramdisk_open big_fs ''x'' O_RDONLY)) 1 0 SEEK_END)
     \<lparr>heap := [0x7000]\<rparr>"

text \<open>
  The bounds on sizes and cursors: every file in the root directory has a capacity
  (\<^verbatim>\<open>datasize\<close>) of at least its logical size (\<^verbatim>\<open>size\<close>), and the cursor of every occupied file
  handle is at most the logical size of its node. All three are \<^verbatim>\<open>uint32\<close>, so none is
  negative.
\<close>

definition cursor_ok :: "ramdisk \<Rightarrow> handle \<Rightarrow> bool" where
  "cursor_ok s h =
     (if hfile h = NULL \<or> dir h \<noteq> 0 then True
      else case files s (hfile h) of None \<Rightarrow> False | Some e \<Rightarrow> ptr h \<le> fsize e)"

definition sizes_ok :: "ramdisk \<Rightarrow> bool" where
  "sizes_ok s \<longleftrightarrow>
     list_all (\<lambda>a. case files s a of None \<Rightarrow> False | Some e \<Rightarrow> fsize e \<le> datasize e) (entries s)
     \<and> list_all (cursor_ok s) (fh s)"

subsection \<open>A file whose truncation found no memory\<close>

text \<open>
  The fresh file system after \<^verbatim>\<open>ramdisk_open("f", O_WRONLY | O_TRUNC)\<close>, where the allocator
  serves the record, the name and the first block of the new file and then has nothing
  left for the \<^verbatim>\<open>malloc(1024)\<close> of the truncation.
\<close>

definition trunc_fs :: ramdisk where
  "trunc_fs = snd (ramdisk_open (fresh_fs\<lparr>heap := [0x3000, 0x3100, 0x4000]\<rparr>) ''f''
     (O_WRONLY OR O_TRUNC))"

subsection \<open>A file with four bytes in a block of 1024\<close>

text \<open>
  The fresh file system after \<^verbatim>\<open>ramdisk_open("f", O_WRONLY)\<close>, which creates the file and
  returns handle 1, and a write of four bytes through that handle.
\<close>

definition written_fs :: ramdisk where
  "written_fs = snd (ramdisk_write
     (snd (ramdisk_open (fresh_fs\<lparr>heap := [0x3000, 0x3100, 0x4000]\<rparr>) ''f'' O_WRONLY))
     1 [1, 2, 3, 4] 4)"

subsection \<open>A full handle table\<close>



subsection \<open>Listing a directory\<close>







subsection \<open>States before an attach\<close>



section \<open>Properties\<close>

declare scan_fd.simps [simp del]
declare find_path_from.simps [simp del]

lemmas flag_defs = O_RDONLY_def O_WRONLY_def O_RDWR_def O_APPEND_def O_TRUNC_def O_MODE_MASK_def
  O_DIR_def

lemmas mode_defs = S_IFDIR_def S_IFREG_def S_IRUSR_def S_IWUSR_def S_IXUSR_def S_IRGRP_def
  S_IWGRP_def S_IXGRP_def S_IROTH_def S_IWOTH_def S_IXOTH_def S_IRWXU_def S_IRWXG_def S_IRWXO_def

lemmas lock_defs = OPENFOR_NOTHING_def OPENFOR_READ_def OPENFOR_WRITE_def

lemmas type_defs = STAT_TYPE_DIR_def STAT_TYPE_FILE_def

lemmas alloc_defs = next_alloc_def unused_def malloc_def free_def strdup_def realloc_def

lemmas list_defs = LIST_FIRST_def LIST_NEXT_def LIST_INSERT_HEAD_def LIST_REMOVE_def

lemmas str_defs = strchr_def strrchr_def strlen_def strncasecmp_def tolower_def

lemmas path_defs = ramdisk_find_def ramdisk_find_path_def find_path_from.simps
  ramdisk_get_parent_def ramdisk_create_file_def

lemmas open_defs = ramdisk_open_def open_lookup_def open_commit_def open_finish_def scan_fd.simps
  ramdisk_close_def

lemmas eval_defs = open_defs path_defs str_defs list_defs alloc_defs flag_defs lock_defs type_defs
  NULL_def zero_handle_def blank_file_def Let_def

lemma fresh_fs_eq:
  "fresh_fs =
     \<lparr>files = [0x2000 \<mapsto> \<lparr>name = ''/'', fsize = 0, ftype = STAT_TYPE_DIR,
         openfor = OPENFOR_NOTHING, usage = 0, data = 0x1000, datasize = 0, dirlist = NULL\<rparr>],
      lists = [0x1000 \<mapsto> []], blocks = Map.empty, fh = replicate 8 zero_handle,
      root = 0x2000, rootdir = 0x1000, heap = []\<rparr>"
  by (simp add: fresh_fs_def fs_ramdisk_init_def boot_def next_alloc_def unused_def NULL_def
      strdup_def blank_file_def)

lemma reachable_fresh_fs: "reachable fresh_fs"
  unfolding fresh_fs_def
  by (rule reach_init)
     (simp add: fs_ramdisk_init_def boot_def next_alloc_def unused_def NULL_def strdup_def
        blank_file_def)

lemma blob_fs_eq:
  "blob_fs =
     \<lparr>files = [0x2000 \<mapsto> \<lparr>name = ''/'', fsize = 0, ftype = 2, openfor = 0, usage = 0,
                  data = 0x1000, datasize = 0, dirlist = 0\<rparr>,
               0x3000 \<mapsto> \<lparr>name = ''blob'', fsize = 3, ftype = 1, openfor = 0, usage = 0,
                  data = 0x6000, datasize = 3, dirlist = 0x1000\<rparr>],
      lists = [0x1000 \<mapsto> [0x3000]], blocks = [0x6000 \<mapsto> [0xAA, 0xBB, 0xCC]],
      fh = (replicate 8 zero_handle)[1 := zero_handle\<lparr>omode := 0x401\<rparr>],
      root = 0x2000, rootdir = 0x1000, heap = []\<rparr>"
  by (simp add: blob_fs_def fresh_fs_eq fs_ramdisk_attach_def eval_defs)

lemma reader_fs_eq:
  "reader_fs =
     \<lparr>files = [0x2000 \<mapsto> \<lparr>name = ''/'', fsize = 0, ftype = 2, openfor = 0, usage = 0,
                  data = 0x1000, datasize = 0, dirlist = 0\<rparr>,
               0x3000 \<mapsto> \<lparr>name = ''blob'', fsize = 3, ftype = 1, openfor = 1, usage = 1,
                  data = 0x6000, datasize = 3, dirlist = 0x1000\<rparr>],
      lists = [0x1000 \<mapsto> [0x3000]], blocks = [0x6000 \<mapsto> [0xAA, 0xBB, 0xCC]],
      fh = (replicate 8 zero_handle)[1 := zero_handle\<lparr>hfile := 0x3000\<rparr>],
      root = 0x2000, rootdir = 0x1000, heap = []\<rparr>"
  by (simp add: reader_fs_def blob_fs_eq eval_defs)

lemma writer_fs_eq:
  "writer_fs =
     \<lparr>files = [0x2000 \<mapsto> \<lparr>name = ''/'', fsize = 0, ftype = 2, openfor = 0, usage = 0,
                  data = 0x1000, datasize = 0, dirlist = 0\<rparr>,
               0x3000 \<mapsto> \<lparr>name = ''blob'', fsize = 3, ftype = 1, openfor = 2, usage = 1,
                  data = 0x6000, datasize = 3, dirlist = 0x1000\<rparr>],
      lists = [0x1000 \<mapsto> [0x3000]], blocks = [0x6000 \<mapsto> [0xAA, 0xBB, 0xCC]],
      fh = (replicate 8 zero_handle)[1 := zero_handle\<lparr>hfile := 0x3000, omode := 1\<rparr>],
      root = 0x2000, rootdir = 0x1000, heap = []\<rparr>"
  by (simp add: writer_fs_def blob_fs_eq eval_defs)

subsection \<open>The mode reported by stat and fstat\<close>

text \<open>
  C7. The claim: a successful \<^verbatim>\<open>stat\<close> and a successful \<^verbatim>\<open>fstat\<close> report the file-type bit
  with the read and write bits for user, group and other, and with the execute bits
  when the node is a directory; \<^verbatim>\<open>stat\<close> and \<^verbatim>\<open>fstat\<close> agree on a directory. The code of
  \<^verbatim>\<open>ramdisk_fstat\<close> leaves the execute bits out: on the freshly initialised file system,
  opening the root as a directory gives handle 1, \<^verbatim>\<open>fstat\<close> of that handle reports
  \<open>S_IFDIR\<close> with the six read and write bits only, and \<^verbatim>\<open>stat\<close> of the same directory
  reports the execute bits as well.
\<close>

theorem fstat_directory_without_execute_bits:
  "fst (ramdisk_open fresh_fs [] (O_RDONLY OR O_DIR)) = Inr 1
   \<and> map_sum id st_mode (ramdisk_fstat (snd (ramdisk_open fresh_fs [] (O_RDONLY OR O_DIR))) 1)
       = Inr (S_IFDIR OR S_IRUSR OR S_IWUSR OR S_IRGRP OR S_IWGRP OR S_IROTH OR S_IWOTH)
   \<and> map_sum id st_mode (ramdisk_stat (snd (ramdisk_open fresh_fs [] (O_RDONLY OR O_DIR))) ''/'')
       = Inr (S_IFDIR OR S_IRUSR OR S_IWUSR OR S_IRGRP OR S_IWGRP OR S_IROTH OR S_IWOTH
              OR S_IXUSR OR S_IXGRP OR S_IXOTH)
   \<and> map_sum id st_mode (ramdisk_fstat (snd (ramdisk_open fresh_fs [] (O_RDONLY OR O_DIR))) 1)
       \<noteq> map_sum id st_mode (ramdisk_stat (snd (ramdisk_open fresh_fs [] (O_RDONLY OR O_DIR))) ''/'')"
proof -
  have op: "ramdisk_open fresh_fs [] (O_RDONLY OR O_DIR) =
    (Inr 1, fresh_fs\<lparr>files := (files fresh_fs)(0x2000 \<mapsto> \<lparr>name = ''/'', fsize = 0,
         ftype = STAT_TYPE_DIR, openfor = OPENFOR_READ, usage = 1, data = 0x1000, datasize = 0,
         dirlist = NULL\<rparr>),
       fh := (fh fresh_fs)[1 := \<lparr>hfile = 0x2000, dir = O_DIR, ptr = 0,
         dirent = \<lparr>d_size = 0, d_name = [], d_time = 0, d_attr = 0\<rparr>, omode = O_DIR\<rparr>]\<rparr>)"
    by (simp add: fresh_fs_eq ramdisk_open_def open_lookup_def open_commit_def open_finish_def
        flag_defs NULL_def STAT_TYPE_DIR_def lock_defs LIST_FIRST_def zero_handle_def Let_def
        scan_fd.simps)
  show ?thesis
    unfolding op
    by (simp add: fresh_fs_eq ramdisk_fstat_def ramdisk_stat_def strlen_def mode_defs NULL_def
        STAT_TYPE_DIR_def Let_def)
qed

subsection \<open>Seeking\<close>

lemma uint_as_sint: "uint (x :: uint32) = sint x mod 2 ^ 32"
  by (simp add: uint_sint take_bit_eq_mod)

lemma sint_bounds32: "- (2 ^ 31) \<le> sint (x :: uint32) \<and> sint x < 2 ^ 31"
  using sint_ge [of x] sint_lt [of x] by simp

lemma mod_shift32: "- (2 ^ 32) \<le> (k :: int) \<Longrightarrow> k < 0 \<Longrightarrow> k mod 2 ^ 32 = k + 2 ^ 32"
proof -
  assume a: "- (2 ^ 32) \<le> k" and b: "k < 0"
  have "k mod 2 ^ 32 = (k + 2 ^ 32) mod 2 ^ 32" by simp
  also have "\<dots> = k + 2 ^ 32" using a b by (intro mod_pos_pos_trivial) auto
  finally show ?thesis .
qed

lemma sint_neg_eq: "sint (x :: uint32) < 0 \<Longrightarrow> uint x = sint x + 2 ^ 32"
  using sint_bounds32 [of x] mod_shift32 [of "sint x"] by (simp add: uint_as_sint)

lemma sint_nonneg_eq: "\<not> sint (x :: uint32) < 0 \<Longrightarrow> uint x = sint x"
  using sint_bounds32 [of x] uint_as_sint [of x] by simp

lemma uint_neg_sint: "sint (x :: uint32) < 0 \<Longrightarrow> uint (- x) = - sint x"
proof -
  assume a: "sint x < 0"
  have b: "uint x = sint x + 2 ^ 32" by (rule sint_neg_eq [OF a])
  have "uint (- x) = (- uint x) mod 2 ^ 32"
    by (simp add: uint_word_ariths)
  also have "\<dots> = - uint x + 2 ^ 32" using a b sint_bounds32 [of x]
    by (intro mod_shift32) auto
  finally show ?thesis using b by simp
qed

lemma neg_gt_iff: "sint (x :: uint32) < 0 \<Longrightarrow> (- x > p) = (uint p + sint x < 0)"
  by (simp add: word_less_def uint_neg_sint) arith

lemma uint_add_sint: "0 \<le> uint (p :: uint32) + sint (x :: uint32) \<Longrightarrow> uint p + sint x < 2 ^ 32
   \<Longrightarrow> uint (p + x) = uint p + sint x"
proof -
  assume a: "0 \<le> uint p + sint x" and b: "uint p + sint x < 2 ^ 32"
  have "uint (p + x) = (uint p + uint x) mod 2 ^ 32"
    by (simp add: uint_word_ariths)
  also have "\<dots> = (uint p + sint x) mod 2 ^ 32"
    by (simp add: uint_as_sint mod_add_right_eq)
  also have "\<dots> = uint p + sint x" using a b by (intro mod_pos_pos_trivial) auto
  finally show ?thesis .
qed

lemma uint_set: "\<not> sint (x :: uint32) < 0 \<Longrightarrow> x = word_of_int (sint x)"
  by simp

lemma clamp_eq:
  assumes "0 \<le> t" "t < 2 ^ 32" "uint (p1 :: uint32) = t"
  shows "(if p1 > sz then sz else p1) = word_of_int (min t (uint sz))"
  using assms by (auto simp: word_less_def min_def)

lemma SEEK_distinct: "SEEK_SET \<noteq> SEEK_CUR" "SEEK_SET \<noteq> SEEK_END" "SEEK_CUR \<noteq> SEEK_END"
  "SEEK_CUR \<noteq> SEEK_SET" "SEEK_END \<noteq> SEEK_SET" "SEEK_END \<noteq> SEEK_CUR"
  by (simp_all add: SEEK_SET_def SEEK_CUR_def SEEK_END_def)

lemma seek_clamps_to_size:
  assumes h: "0 \<le> h" "nat h < length (fh s)" "hfile (fh s ! nat h) \<noteq> NULL"
      "dir (fh s ! nat h) = 0" "files s (hfile (fh s ! nat h)) = Some e"
    and tgt: "seek_target (uint (ptr (fh s ! nat h))) (uint (fsize e)) (sint offset) whence = Some t"
    and rep: "t < 2 ^ 32"
  shows "ramdisk_seek s h offset whence =
           (if t < 0 then (Inl EINVAL, s)
            else (Inr (word_of_int (min t (uint (fsize e)))),
                  s\<lparr>fh := (fh s)[nat h := (fh s ! nat h)\<lparr>ptr := word_of_int (min t (uint (fsize e)))\<rparr>]\<rparr>))"
proof -
  let ?p = "ptr (fh s ! nat h)"
  have cl: "(if p1 > fsize e then fsize e else p1) = word_of_int (min t (uint (fsize e)))"
    if "0 \<le> t" "uint p1 = t" for p1 :: uint32
    using that rep by (intro clamp_eq) auto
  consider (set) "whence = SEEK_SET" "t = sint offset"
    | (cur) "whence = SEEK_CUR" "t = uint ?p + sint offset"
    | (end') "whence = SEEK_END" "t = uint (fsize e) + sint offset"
    using tgt by (auto simp: seek_target_def split: if_splits)
  then show ?thesis
  proof cases
    case set
    show ?thesis
    proof (cases "sint offset < 0")
      case True
      then show ?thesis using h set by (simp add: ramdisk_seek_def Let_def)
    next
      case False
      then have "uint offset = t" "0 \<le> t" using set by (simp_all add: sint_nonneg_eq)
      then show ?thesis using h set False cl [of offset]
        by (simp add: ramdisk_seek_def Let_def)
    qed
  next
    case cur
    show ?thesis
    proof (cases "t < 0")
      case True
      then have neg: "sint offset < 0" using cur uint_nonnegative [of ?p] by arith
      then have "- offset > ?p" using True cur neg_gt_iff [of offset ?p] by simp
      then show ?thesis using h cur True neg by (simp add: ramdisk_seek_def Let_def SEEK_distinct)
    next
      case False
      then have a: "\<not> (sint offset < 0 \<and> - offset > ?p)" using cur neg_gt_iff [of offset ?p]
        by auto
      have "uint (?p + offset) = t" using False cur rep by (simp add: uint_add_sint)
      then show ?thesis using h cur False a cl [of "?p + offset"]
        by (simp add: ramdisk_seek_def Let_def SEEK_distinct)
    qed
  next
    case end'
    show ?thesis
    proof (cases "t < 0")
      case True
      then have neg: "sint offset < 0" using end' uint_nonnegative [of "fsize e"] by arith
      then have "- offset > fsize e" using True end' neg_gt_iff [of offset "fsize e"] by simp
      then show ?thesis using h end' True neg by (simp add: ramdisk_seek_def Let_def SEEK_distinct)
    next
      case False
      then have a: "\<not> (sint offset < 0 \<and> - offset > fsize e)"
        using end' neg_gt_iff [of offset "fsize e"] by auto
      have "uint (fsize e + offset) = t" using False end' rep by (simp add: uint_add_sint)
      then show ?thesis using h end' False a cl [of "fsize e + offset"]
        by (simp add: ramdisk_seek_def Let_def SEEK_distinct)
    qed
  qed
qed

lemma uint_add_no_wrap:
  "uint (p :: uint32) + uint (b :: uint32) < 2 ^ 32 \<Longrightarrow> uint (p + b) = uint p + uint b"
proof -
  assume a: "uint p + uint b < 2 ^ 32"
  have "uint (p + b) = (uint p + uint b) mod 2 ^ 32" by (simp add: uint_word_ariths)
  also have "\<dots> = uint p + uint b" using a by (intro mod_pos_pos_trivial) auto
  finally show ?thesis .
qed

lemma read_count_at_end:
  "uint (p :: uint32) + uint (b :: uint32) < 2 ^ 32 \<Longrightarrow> (if p + b > p then p - p else b) = 0"
proof -
  assume a: "uint p + uint b < 2 ^ 32"
  have "b = 0" if "\<not> p + b > p"
  proof -
    have eq: "uint (p + b) = uint p + uint b" by (rule uint_add_no_wrap [OF a])
    from that have "\<not> uint p < uint (p + b)" by (simp add: word_less_def)
    with eq have "uint b = 0" using uint_nonnegative [of b] by arith
    then show ?thesis by (simp add: uint_0_iff)
  qed
  then show ?thesis by auto
qed

lemma handle_ptr_same: "ptr (x :: handle) = v \<Longrightarrow> x\<lparr>ptr := v\<rparr> = x"
  by (cases x) auto

lemma read_at_end:
  assumes h: "0 \<le> h" "nat h < length (fh s)" "hfile (fh s ! nat h) \<noteq> NULL"
      "dir (fh s ! nat h) = 0" "files s (hfile (fh s ! nat h)) = Some e"
    and at_end: "ptr (fh s ! nat h) = fsize e"
    and blk: "blocks s (data e) = Some blk" "unat (fsize e) \<le> length blk"
    and nw: "uint (fsize e) + uint bytes < 2 ^ 32"
  shows "ramdisk_read s h bytes = (Inr (0, []), s)"
  using h at_end blk read_count_at_end [OF nw]
  by (simp add: ramdisk_read_def Let_def handle_ptr_same)

text \<open>
  Seeking where nothing wraps. For a valid file handle, \<^verbatim>\<open>seek\<close> computes the new cursor as
  \<open>offset\<close>, \<open>cursor + offset\<close> or \<open>logical_size + offset\<close> (\<open>seek_target\<close>, over the integers),
  returns \<^verbatim>\<open>-1\<close> with \<^verbatim>\<open>EINVAL\<close> when that is negative, and otherwise clamps it to the logical
  size, stores and returns it, provided the target fits the 32 bits of the cursor. A
  seek past the end then leaves the cursor at the logical size, and the read that
  follows returns 0 bytes and changes nothing, provided the data block holds the file
  and the size plus the requested count does not wrap.
\<close>

lemma seek_then_read:
  assumes h: "0 \<le> h" "nat h < length (fh s)" "hfile (fh s ! nat h) \<noteq> NULL"
      "dir (fh s ! nat h) = 0" "files s (hfile (fh s ! nat h)) = Some e"
    and tgt: "seek_target (uint (ptr (fh s ! nat h))) (uint (fsize e)) (sint offset) whence = Some t"
    and rep: "t < 2 ^ 32"
  shows "ramdisk_seek s h offset whence =
           (if t < 0 then (Inl EINVAL, s)
            else (Inr (word_of_int (min t (uint (fsize e)))),
                  s\<lparr>fh := (fh s)[nat h := (fh s ! nat h)\<lparr>ptr := word_of_int (min t (uint (fsize e)))\<rparr>]\<rparr>))
         \<and> (uint (fsize e) < t \<and> blocks s (data e) = Some blk \<and> unat (fsize e) \<le> length blk
              \<and> uint (fsize e) + uint bytes < 2 ^ 32 \<longrightarrow>
             fst (ramdisk_seek s h offset whence) = Inr (fsize e)
             \<and> ramdisk_read (snd (ramdisk_seek s h offset whence)) h bytes
                 = (Inr (0, []), snd (ramdisk_seek s h offset whence)))"
proof (intro conjI impI)
  show sk: "ramdisk_seek s h offset whence =
           (if t < 0 then (Inl EINVAL, s)
            else (Inr (word_of_int (min t (uint (fsize e)))),
                  s\<lparr>fh := (fh s)[nat h := (fh s ! nat h)\<lparr>ptr := word_of_int (min t (uint (fsize e)))\<rparr>]\<rparr>))"
    by (rule seek_clamps_to_size [OF h tgt rep])
  assume a: "uint (fsize e) < t \<and> blocks s (data e) = Some blk \<and> unat (fsize e) \<le> length blk
              \<and> uint (fsize e) + uint bytes < 2 ^ 32"
  then have pos: "\<not> t < 0" using uint_nonnegative [of "fsize e"] by arith
  have m: "(word_of_int (min t (uint (fsize e))) :: uint32) = fsize e"
    using a by (simp add: min_def)
  let ?s' = "s\<lparr>fh := (fh s)[nat h := (fh s ! nat h)\<lparr>ptr := fsize e\<rparr>]\<rparr>"
  have sk': "ramdisk_seek s h offset whence = (Inr (fsize e), ?s')"
    using sk pos m by simp
  show "fst (ramdisk_seek s h offset whence) = Inr (fsize e)" by (simp add: sk')
  show "ramdisk_read (snd (ramdisk_seek s h offset whence)) h bytes
                 = (Inr (0, []), snd (ramdisk_seek s h offset whence))"
    unfolding sk' snd_conv
    using h a by (intro read_at_end [where e = e and blk = blk]) simp_all
qed

lemma seek_then_read_example:
  "ramdisk_seek reader_fs 1 10 SEEK_SET
     = (Inr 3, reader_fs\<lparr>fh := (fh reader_fs)[1 := (fh reader_fs ! 1)\<lparr>ptr := 3\<rparr>]\<rparr>)
   \<and> ramdisk_read (snd (ramdisk_seek reader_fs 1 10 SEEK_SET)) 1 100
     = (Inr (0, []), snd (ramdisk_seek reader_fs 1 10 SEEK_SET))
   \<and> ramdisk_seek reader_fs 1 (- 1) SEEK_CUR = (Inl EINVAL, reader_fs)"
proof -
  let ?e = "\<lparr>name = ''blob'', fsize = 3, ftype = 1, openfor = 1, usage = 1,
              data = 0x6000, datasize = 3, dirlist = 0x1000\<rparr>"
  have e: "files reader_fs (hfile (fh reader_fs ! nat 1)) = Some ?e"
    by (simp add: reader_fs_eq zero_handle_def)
  have h: "(0::int) \<le> 1" "nat 1 < length (fh reader_fs)" "hfile (fh reader_fs ! nat 1) \<noteq> NULL"
      "dir (fh reader_fs ! nat 1) = 0"
    by (simp_all add: reader_fs_eq zero_handle_def NULL_def)
  have t1: "seek_target (uint (ptr (fh reader_fs ! nat 1))) (uint (fsize ?e))
              (sint (10 :: uint32)) SEEK_SET = Some 10"
    by (simp add: seek_target_def)
  have t2: "seek_target (uint (ptr (fh reader_fs ! nat 1))) (uint (fsize ?e))
              (sint (- 1 :: uint32)) SEEK_CUR = Some (- 1)"
    by (simp add: seek_target_def reader_fs_eq zero_handle_def SEEK_SET_def SEEK_CUR_def)
  have pre: "uint (fsize ?e) < 10 \<and> blocks reader_fs (data ?e) = Some [0xAA, 0xBB, 0xCC]
      \<and> unat (fsize ?e) \<le> length [0xAA, 0xBB, 0xCC :: uint8]
      \<and> uint (fsize ?e) + uint (100 :: uint32) < 2 ^ 32"
    by (simp add: reader_fs_eq)
  have r1: "(10 :: int) < 2 ^ 32" and r2: "(- 1 :: int) < 2 ^ 32"
    by simp_all
  note a = seek_then_read [OF h e t1 r1, of "[0xAA, 0xBB, 0xCC]" 100]
  note b = seek_then_read [OF h e t2 r2, of "[]" 0]
  have c1: "ramdisk_seek reader_fs 1 10 SEEK_SET
     = (Inr 3, reader_fs\<lparr>fh := (fh reader_fs)[1 := (fh reader_fs ! 1)\<lparr>ptr := 3\<rparr>]\<rparr>)"
    using a [THEN conjunct1] by simp
  have c2: "ramdisk_read (snd (ramdisk_seek reader_fs 1 10 SEEK_SET)) 1 100
     = (Inr (0, []), snd (ramdisk_seek reader_fs 1 10 SEEK_SET))"
    using a [THEN conjunct2, rule_format, OF pre, THEN conjunct2] .
  have c3: "ramdisk_seek reader_fs 1 (- 1) SEEK_CUR = (Inl EINVAL, reader_fs)"
    using b [THEN conjunct1] by simp
  show ?thesis using c1 c2 c3 by (intro conjI)
qed

subsection \<open>Writing\<close>

lemma unat_add_nw:
  "unat (p :: uint32) + unat (b :: uint32) < 2 ^ 32 \<Longrightarrow> unat (p + b) = unat p + unat b"
  using unat_add_lem [of p b] by simp

lemma unat_add_4096:
  "unat (p :: uint32) + unat (b :: uint32) + 4096 < 2 ^ 32 \<Longrightarrow>
   unat (p + b + 4096) = unat p + unat b + 4096"
proof -
  assume a: "unat p + unat b + 4096 < 2 ^ 32"
  then have b: "unat (p + b) = unat p + unat b" by (intro unat_add_nw) simp
  have "unat (p + b + 4096) = unat (p + b) + unat (4096 :: uint32)"
    using a b by (intro unat_add_nw) simp
  then show ?thesis using b by simp
qed

text \<open>No growth.\<close>

lemma write_in_place:
  assumes v: "0 \<le> h" "nat h < length (fh s)" "hfile (fh s ! nat h) = f" "f \<noteq> NULL"
      "dir (fh s ! nat h) = 0" "files s f = Some e" "openfor e = OPENFOR_WRITE"
    and b: "blocks s (data e) = Some blk" "length blk = unat (datasize e)"
      "unat bytes \<le> length buf"
    and nw: "unat (ptr (fh s ! nat h)) + unat bytes < 2 ^ 32"
    and fit: "\<not> ptr (fh s ! nat h) + bytes > datasize e"
  shows "ramdisk_write s h buf bytes =
     (Inr bytes,
      s\<lparr>blocks := (blocks s)(data e \<mapsto>
           take (unat (ptr (fh s ! nat h))) blk @ take (unat bytes) buf
             @ drop (unat (ptr (fh s ! nat h)) + unat bytes) blk),
        fh := (fh s)[nat h := (fh s ! nat h)\<lparr>ptr := ptr (fh s ! nat h) + bytes\<rparr>],
        files := (files s)(f \<mapsto>
           (if fsize e < ptr (fh s ! nat h) + bytes then e\<lparr>fsize := ptr (fh s ! nat h) + bytes\<rparr>
            else e))\<rparr>)"
proof -
  have "unat (ptr (fh s ! nat h)) + unat bytes \<le> length blk"
    using fit b(2) unat_add_nw [OF nw] by (simp add: word_less_nat_alt not_less)
  then show ?thesis using v b fit
    by (simp add: ramdisk_write_def Let_def)
qed

text \<open>Growth, the allocator refusing.\<close>

lemma write_realloc_fails:
  assumes v: "0 \<le> h" "nat h < length (fh s)" "hfile (fh s ! nat h) = f" "f \<noteq> NULL"
      "dir (fh s ! nat h) = 0" "files s f = Some e" "openfor e = OPENFOR_WRITE"
    and b: "blocks s (data e) = Some blk"
    and grow: "ptr (fh s ! nat h) + bytes > datasize e"
    and no: "heap s = [] \<or> \<not> (hd (heap s) = data e \<or> unused s (hd (heap s)))"
  shows "ramdisk_write s h buf bytes = (Inl Failed, s\<lparr>heap := tl (heap s)\<rparr>)"
  using v b grow no
  by (cases "heap s") (auto simp: ramdisk_write_def Let_def realloc_def malloc_def next_alloc_def unused_def)

text \<open>Growth, the allocator serving the address \<open>a\<close>.\<close>

lemma write_realloc_ok:
  assumes v: "0 \<le> h" "nat h < length (fh s)" "hfile (fh s ! nat h) = f" "f \<noteq> NULL"
      "dir (fh s ! nat h) = 0" "files s f = Some e" "openfor e = OPENFOR_WRITE"
    and b: "data e \<noteq> NULL" "blocks s (data e) = Some blk" "length blk = unat (datasize e)"
      "unat bytes \<le> length buf"
    and nw: "unat (ptr (fh s ! nat h)) + unat bytes + 4096 < 2 ^ 32"
    and grow: "ptr (fh s ! nat h) + bytes > datasize e"
    and ok: "heap s = a # q" "a = data e \<or> unused s a"
  shows "ramdisk_write s h buf bytes =
     (Inr bytes,
      s\<lparr>heap := q,
        blocks := ((blocks s)(data e := None))(a \<mapsto>
           take (unat (ptr (fh s ! nat h))) (blk @ replicate (unat (ptr (fh s ! nat h)) + unat bytes + 4096 - length blk) 0)
             @ take (unat bytes) buf @ replicate 4096 0),
        fh := (fh s)[nat h := (fh s ! nat h)\<lparr>ptr := ptr (fh s ! nat h) + bytes\<rparr>],
        files := (files s)(f \<mapsto>
           (if fsize e < ptr (fh s ! nat h) + bytes
            then e\<lparr>data := a, datasize := ptr (fh s ! nat h) + bytes + 4096, fsize := ptr (fh s ! nat h) + bytes\<rparr>
            else e\<lparr>data := a, datasize := ptr (fh s ! nat h) + bytes + 4096\<rparr>))\<rparr>)"
proof -
  let ?p = "ptr (fh s ! nat h)"
  have n1: "unat (?p + bytes) = unat ?p + unat bytes" using nw by (intro unat_add_nw) simp
  have n2: "unat (?p + bytes + 4096) = unat ?p + unat bytes + 4096" by (rule unat_add_4096 [OF nw])
  have g: "length blk < unat ?p + unat bytes" using grow b(3) n1 by (simp add: word_less_nat_alt)
  have a0: "a \<noteq> NULL" using ok(2) b(1) by (auto simp: unused_def)
  have dr: "drop (unat ?p + unat bytes) (blk @ replicate (unat ?p + unat bytes + 4096 - length blk) 0)
      = replicate 4096 (0 :: uint8)"
    using g by simp
  show ?thesis using v b grow ok a0 g
    by (simp add: ramdisk_write_def Let_def realloc_def n2 dr)
qed

lemma write_invalid:
  assumes "0 \<le> h"
    and "\<not> (nat h < length (fh s) \<and> hfile (fh s ! nat h) \<noteq> NULL \<and> dir (fh s ! nat h) = 0
            \<and> (\<exists>e. files s (hfile (fh s ! nat h)) = Some e \<and> openfor e = OPENFOR_WRITE))"
    and "nat h < length (fh s) \<and> hfile (fh s ! nat h) \<noteq> NULL \<longrightarrow> files s (hfile (fh s ! nat h)) \<noteq> None"
  shows "ramdisk_write s h buf bytes = (Inl Failed, s)"
  using assms by (auto simp: ramdisk_write_def Let_def split: option.splits)

text \<open>
  Writing where the node's block is live. \<^verbatim>\<open>write\<close> on a valid file handle whose node is
  locked for writing: when \<open>cursor + n\<close> exceeds the capacity the block is reallocated to
  \<open>cursor + n + 4096\<close> bytes; when that allocation fails the result is \<^verbatim>\<open>-1\<close> and the node,
  its block and the handle are as before; otherwise the \<open>n\<close> bytes of the buffer stand at
  the cursor, every other byte of the old block is as before, the cursor has advanced
  by \<open>n\<close>, the logical size is raised to the cursor when the cursor exceeds it, and the
  result is \<open>n\<close>. On a handle that is not such a handle the result is \<^verbatim>\<open>-1\<close> and nothing
  changes. All this under the conditions that the node's block is live and of the size
  the node records, that the buffer holds \<open>n\<close> bytes, that \<open>cursor + n + 4096\<close> fits 32
  bits, and that the handle is not negative.
\<close>

lemma write_behaviour:
  assumes h0: "0 \<le> h" and res: "ramdisk_write s h buf bytes = (r, s')"
  shows "(nat h < length (fh s) \<and> hfile (fh s ! nat h) = f \<and> f \<noteq> NULL \<and> dir (fh s ! nat h) = 0
          \<and> files s f = Some e \<and> openfor e = OPENFOR_WRITE \<and> ptr (fh s ! nat h) = p
          \<and> data e \<noteq> NULL \<and> blocks s (data e) = Some blk \<and> length blk = unat (datasize e)
          \<and> unat bytes \<le> length buf \<and> unat p + unat bytes + 4096 < 2 ^ 32 \<longrightarrow>
          (if p + bytes > datasize e
              \<and> (heap s = [] \<or> \<not> (hd (heap s) = data e \<or> unused s (hd (heap s))))
           then r = Inl Failed \<and> files s' = files s \<and> blocks s' = blocks s \<and> fh s' = fh s
           else r = Inr bytes \<and> ptr (fh s' ! nat h) = p + bytes
             \<and> (\<exists>e' blk'. files s' f = Some e' \<and> blocks s' (data e') = Some blk'
                  \<and> e' = e\<lparr>data := data e', datasize := datasize e', fsize := fsize e'\<rparr>
                  \<and> datasize e' = (if p + bytes > datasize e then p + bytes + 4096 else datasize e)
                  \<and> (\<not> p + bytes > datasize e \<longrightarrow> data e' = data e)
                  \<and> length blk' = unat (datasize e')
                  \<and> take (unat bytes) (drop (unat p) blk') = take (unat bytes) buf
                  \<and> (\<forall>i < length blk. i < unat p \<or> unat p + unat bytes \<le> i \<longrightarrow> blk' ! i = blk ! i)
                  \<and> fsize e' = (if fsize e < p + bytes then p + bytes else fsize e))))
       \<and> (\<not> (nat h < length (fh s) \<and> hfile (fh s ! nat h) \<noteq> NULL \<and> dir (fh s ! nat h) = 0
               \<and> (\<exists>e. files s (hfile (fh s ! nat h)) = Some e \<and> openfor e = OPENFOR_WRITE))
            \<and> (nat h < length (fh s) \<and> hfile (fh s ! nat h) \<noteq> NULL
                  \<longrightarrow> files s (hfile (fh s ! nat h)) \<noteq> None)
            \<longrightarrow> r = Inl Failed \<and> s' = s)"
proof (intro conjI impI)
  assume a: "\<not> (nat h < length (fh s) \<and> hfile (fh s ! nat h) \<noteq> NULL \<and> dir (fh s ! nat h) = 0
               \<and> (\<exists>e. files s (hfile (fh s ! nat h)) = Some e \<and> openfor e = OPENFOR_WRITE))
            \<and> (nat h < length (fh s) \<and> hfile (fh s ! nat h) \<noteq> NULL
                  \<longrightarrow> files s (hfile (fh s ! nat h)) \<noteq> None)"
  have "ramdisk_write s h buf bytes = (Inl Failed, s)"
    using a by (intro write_invalid [OF h0]) blast+
  then show "r = Inl Failed" "s' = s" using res by simp_all
next
  assume a: "nat h < length (fh s) \<and> hfile (fh s ! nat h) = f \<and> f \<noteq> NULL \<and> dir (fh s ! nat h) = 0
          \<and> files s f = Some e \<and> openfor e = OPENFOR_WRITE \<and> ptr (fh s ! nat h) = p
          \<and> data e \<noteq> NULL \<and> blocks s (data e) = Some blk \<and> length blk = unat (datasize e)
          \<and> unat bytes \<le> length buf \<and> unat p + unat bytes + 4096 < 2 ^ 32"
  then have v: "nat h < length (fh s)" "hfile (fh s ! nat h) = f" "f \<noteq> NULL"
      "dir (fh s ! nat h) = 0" "files s f = Some e" "openfor e = OPENFOR_WRITE"
    and p: "ptr (fh s ! nat h) = p"
    and b: "data e \<noteq> NULL" "blocks s (data e) = Some blk" "length blk = unat (datasize e)"
      "unat bytes \<le> length buf"
    and nw: "unat p + unat bytes + 4096 < 2 ^ 32"
    by simp_all
  have nw': "unat (ptr (fh s ! nat h)) + unat bytes + 4096 < 2 ^ 32" using nw p by simp
  have n1: "unat (p + bytes) = unat p + unat bytes" using nw by (intro unat_add_nw) simp
  have n2: "unat (p + bytes + 4096) = unat p + unat bytes + 4096" by (rule unat_add_4096 [OF nw])
  show "if p + bytes > datasize e
              \<and> (heap s = [] \<or> \<not> (hd (heap s) = data e \<or> unused s (hd (heap s))))
           then r = Inl Failed \<and> files s' = files s \<and> blocks s' = blocks s \<and> fh s' = fh s
           else r = Inr bytes \<and> ptr (fh s' ! nat h) = p + bytes
             \<and> (\<exists>e' blk'. files s' f = Some e' \<and> blocks s' (data e') = Some blk'
                  \<and> e' = e\<lparr>data := data e', datasize := datasize e', fsize := fsize e'\<rparr>
                  \<and> datasize e' = (if p + bytes > datasize e then p + bytes + 4096 else datasize e)
                  \<and> (\<not> p + bytes > datasize e \<longrightarrow> data e' = data e)
                  \<and> length blk' = unat (datasize e')
                  \<and> take (unat bytes) (drop (unat p) blk') = take (unat bytes) buf
                  \<and> (\<forall>i < length blk. i < unat p \<or> unat p + unat bytes \<le> i \<longrightarrow> blk' ! i = blk ! i)
                  \<and> fsize e' = (if fsize e < p + bytes then p + bytes else fsize e))"
  proof (cases "p + bytes > datasize e")
    case False
    then have fit: "\<not> ptr (fh s ! nat h) + bytes > datasize e" using p by simp
    have le: "unat p + unat bytes \<le> length blk"
      using False b(3) n1 by (simp add: word_less_nat_alt not_less)
    have "unat (ptr (fh s ! nat h)) + unat bytes < 2 ^ 32" using nw' by simp
    from write_in_place [OF h0 v b(2,3,4) this fit] res p
    have r: "r = Inr bytes"
      and s': "s' = s\<lparr>blocks := (blocks s)(data e \<mapsto>
           take (unat p) blk @ take (unat bytes) buf @ drop (unat p + unat bytes) blk),
        fh := (fh s)[nat h := (fh s ! nat h)\<lparr>ptr := p + bytes\<rparr>],
        files := (files s)(f \<mapsto> (if fsize e < p + bytes then e\<lparr>fsize := p + bytes\<rparr> else e))\<rparr>"
      by simp_all
    let ?B = "take (unat p) blk @ take (unat bytes) buf @ drop (unat p + unat bytes) blk"
    let ?E = "if fsize e < p + bytes then e\<lparr>fsize := p + bytes\<rparr> else e"
    have f1: "files s' f = Some ?E" and f2: "blocks s' (data ?E) = Some ?B"
      and f3: "ptr (fh s' ! nat h) = p + bytes"
      using v(1) by (simp_all add: s')
    have l1: "length ?B = unat (datasize ?E)" using le b(3,4) by simp
    have l2: "take (unat bytes) (drop (unat p) ?B) = take (unat bytes) buf"
      using le b(4) by simp
    have l3: "\<forall>i < length blk. i < unat p \<or> unat p + unat bytes \<le> i \<longrightarrow> ?B ! i = blk ! i"
      using le b(4) by (auto simp: nth_append min_def)
    have e1: "?E = e\<lparr>data := data ?E, datasize := datasize ?E, fsize := fsize ?E\<rparr>" by simp
    have e2: "datasize ?E = (if p + bytes > datasize e then p + bytes + 4096 else datasize e)"
      using False by simp
    have e3: "\<not> p + bytes > datasize e \<longrightarrow> data ?E = data e" by simp
    have e4: "fsize ?E = (if fsize e < p + bytes then p + bytes else fsize e)" by simp
    have "\<exists>e' blk'. files s' f = Some e' \<and> blocks s' (data e') = Some blk'
                  \<and> e' = e\<lparr>data := data e', datasize := datasize e', fsize := fsize e'\<rparr>
                  \<and> datasize e' = (if p + bytes > datasize e then p + bytes + 4096 else datasize e)
                  \<and> (\<not> p + bytes > datasize e \<longrightarrow> data e' = data e)
                  \<and> length blk' = unat (datasize e')
                  \<and> take (unat bytes) (drop (unat p) blk') = take (unat bytes) buf
                  \<and> (\<forall>i < length blk. i < unat p \<or> unat p + unat bytes \<le> i \<longrightarrow> blk' ! i = blk ! i)
                  \<and> fsize e' = (if fsize e < p + bytes then p + bytes else fsize e)"
      using f1 f2 e1 e2 e3 l1 l2 l3 e4 by blast
    then show ?thesis using False r f3 by simp
  next
    case True
    then have grow: "ptr (fh s ! nat h) + bytes > datasize e" using p by simp
    have g: "length blk < unat p + unat bytes"
      using True b(3) n1 by (simp add: word_less_nat_alt)
    show ?thesis
    proof (cases "heap s = [] \<or> \<not> (hd (heap s) = data e \<or> unused s (hd (heap s)))")
      case no: True
      from write_realloc_fails [OF h0 v b(2) grow no] res
      show ?thesis using True no by auto
    next
      case ok: False
      then obtain a q where hp: "heap s = a # q" and a: "a = data e \<or> unused s a"
        by (cases "heap s") auto
      from write_realloc_ok [OF h0 v b nw' grow hp a] res p
      have r: "r = Inr bytes"
        and s': "s' = s\<lparr>heap := q,
          blocks := ((blocks s)(data e := None))(a \<mapsto>
             take (unat p) (blk @ replicate (unat p + unat bytes + 4096 - length blk) 0)
               @ take (unat bytes) buf @ replicate 4096 0),
          fh := (fh s)[nat h := (fh s ! nat h)\<lparr>ptr := p + bytes\<rparr>],
          files := (files s)(f \<mapsto>
             (if fsize e < p + bytes
              then e\<lparr>data := a, datasize := p + bytes + 4096, fsize := p + bytes\<rparr>
              else e\<lparr>data := a, datasize := p + bytes + 4096\<rparr>))\<rparr>"
        by simp_all
      let ?B = "take (unat p) (blk @ replicate (unat p + unat bytes + 4096 - length blk) 0)
               @ take (unat bytes) buf @ replicate 4096 0"
      let ?E = "if fsize e < p + bytes
              then e\<lparr>data := a, datasize := p + bytes + 4096, fsize := p + bytes\<rparr>
              else e\<lparr>data := a, datasize := p + bytes + 4096\<rparr>"
      have f1: "files s' f = Some ?E" and f2: "blocks s' (data ?E) = Some ?B"
        and f3: "ptr (fh s' ! nat h) = p + bytes"
        using v(1) by (simp_all add: s')
      have l1: "length ?B = unat (datasize ?E)" using g b(4) n2 by simp
      have l2: "take (unat bytes) (drop (unat p) ?B) = take (unat bytes) buf"
        using g b(4) by simp
      have l3: "\<forall>i < length blk. i < unat p \<or> unat p + unat bytes \<le> i \<longrightarrow> ?B ! i = blk ! i"
        using g b(4) by (auto simp: nth_append min_def)
      have e1: "?E = e\<lparr>data := data ?E, datasize := datasize ?E, fsize := fsize ?E\<rparr>" by simp
      have e2: "datasize ?E = (if p + bytes > datasize e then p + bytes + 4096 else datasize e)"
        using True by simp
      have e3: "\<not> p + bytes > datasize e \<longrightarrow> data ?E = data e" using True by simp
      have e4: "fsize ?E = (if fsize e < p + bytes then p + bytes else fsize e)" by simp
      have "\<exists>e' blk'. files s' f = Some e' \<and> blocks s' (data e') = Some blk'
                  \<and> e' = e\<lparr>data := data e', datasize := datasize e', fsize := fsize e'\<rparr>
                  \<and> datasize e' = (if p + bytes > datasize e then p + bytes + 4096 else datasize e)
                  \<and> (\<not> p + bytes > datasize e \<longrightarrow> data e' = data e)
                  \<and> length blk' = unat (datasize e')
                  \<and> take (unat bytes) (drop (unat p) blk') = take (unat bytes) buf
                  \<and> (\<forall>i < length blk. i < unat p \<or> unat p + unat bytes \<le> i \<longrightarrow> blk' ! i = blk ! i)
                  \<and> fsize e' = (if fsize e < p + bytes then p + bytes else fsize e)"
        using f1 f2 e1 e2 e3 l1 l2 l3 e4 by blast
      then show ?thesis using ok r f3 by simp
    qed
  qed
qed

lemma write_behaviour_example:
  "fst (ramdisk_write (writer_fs\<lparr>heap := [0x7000]\<rparr>) 1 [1, 2, 3, 4] 4) = Inr 4
   \<and> ptr (fh (snd (ramdisk_write (writer_fs\<lparr>heap := [0x7000]\<rparr>) 1 [1, 2, 3, 4] 4)) ! 1) = 4
   \<and> ramdisk_write writer_fs 5 [] 0 = (Inl Failed, writer_fs)"
proof -
  let ?s = "writer_fs\<lparr>heap := [0x7000]\<rparr>"
  let ?e = "\<lparr>name = ''blob'', fsize = 3, ftype = 1, openfor = 2, usage = 1,
              data = 0x6000, datasize = 3, dirlist = 0x1000\<rparr>"
  have res: "ramdisk_write ?s 1 [1, 2, 3, 4] 4
      = (fst (ramdisk_write ?s 1 [1, 2, 3, 4] 4), snd (ramdisk_write ?s 1 [1, 2, 3, 4] 4))"
    by simp
  have pre: "nat 1 < length (fh ?s) \<and> hfile (fh ?s ! nat 1) = 0x3000 \<and> (0x3000 :: addr) \<noteq> NULL
      \<and> dir (fh ?s ! nat 1) = 0
      \<and> files ?s 0x3000 = Some ?e \<and> openfor ?e = OPENFOR_WRITE \<and> ptr (fh ?s ! nat 1) = 0
      \<and> data ?e \<noteq> NULL \<and> blocks ?s (data ?e) = Some [0xAA, 0xBB, 0xCC]
      \<and> length [0xAA, 0xBB, 0xCC :: uint8] = unat (datasize ?e)
      \<and> unat (4 :: uint32) \<le> length [1, 2, 3, 4 :: uint8]
      \<and> unat (0 :: uint32) + unat (4 :: uint32) + 4096 < 2 ^ 32"
    by (simp add: writer_fs_eq zero_handle_def NULL_def OPENFOR_WRITE_def)
  have c: "\<not> ((0 :: uint32) + 4 > datasize ?e
      \<and> (heap ?s = [] \<or> \<not> (hd (heap ?s) = data ?e \<or> unused ?s (hd (heap ?s)))))"
    by (simp add: writer_fs_eq unused_def NULL_def)
  have h0: "(0 :: int) \<le> 1" by simp
  note a = write_behaviour [OF h0 res, THEN conjunct1, rule_format, OF pre]
  have c1: "fst (ramdisk_write ?s 1 [1, 2, 3, 4] 4) = Inr 4"
    and c2: "ptr (fh (snd (ramdisk_write ?s 1 [1, 2, 3, 4] 4)) ! 1) = 4"
    using a c by simp_all
  have res5: "ramdisk_write writer_fs 5 [] 0
      = (fst (ramdisk_write writer_fs 5 [] 0), snd (ramdisk_write writer_fs 5 [] 0))"
    by simp
  have pre5: "\<not> (nat 5 < length (fh writer_fs) \<and> hfile (fh writer_fs ! nat 5) \<noteq> NULL
        \<and> dir (fh writer_fs ! nat 5) = 0
        \<and> (\<exists>e. files writer_fs (hfile (fh writer_fs ! nat 5)) = Some e \<and> openfor e = OPENFOR_WRITE))
      \<and> (nat 5 < length (fh writer_fs) \<and> hfile (fh writer_fs ! nat 5) \<noteq> NULL
            \<longrightarrow> files writer_fs (hfile (fh writer_fs ! nat 5)) \<noteq> None)"
    by (simp add: writer_fs_eq zero_handle_def NULL_def)
  have h5: "(0 :: int) \<le> 5" by simp
  have c3: "ramdisk_write writer_fs 5 [] 0 = (Inl Failed, writer_fs)"
    using write_behaviour [OF h5 res5, of undefined undefined undefined undefined,
        THEN conjunct2, rule_format, OF pre5]
    by (simp add: prod_eq_iff)
  show ?thesis using c1 c2 c3 by (intro conjI)
qed

subsection \<open>Opening a locked node\<close>

lemma scan_fd_free: "scan_fd hs k < length hs \<Longrightarrow> hfile (hs ! scan_fd hs k) = NULL"
proof (induction hs k rule: scan_fd.induct)
  case (1 hs fd)
  then show ?case by (subst (asm) (2) scan_fd.simps, subst scan_fd.simps) (auto split: if_splits)
qed

lemma same_refl: "same_but_free_slots s s"
  by (simp add: same_but_free_slots_def)

lemma same_free_slot:
  "fd < length (fh s) \<Longrightarrow> hfile (fh s ! fd) = NULL \<Longrightarrow>
   same_but_free_slots s (s\<lparr>fh := (fh s)[fd := (fh s ! fd)\<lparr>dir := d, omode := m, hfile := NULL\<rparr>]\<rparr>)"
  by (auto simp: same_but_free_slots_def nth_list_update)

lemma same_free_slot':
  "fd < length (fh s) \<Longrightarrow> hfile (fh s ! fd) = NULL \<Longrightarrow>
   same_but_free_slots s (s\<lparr>fh := (fh s)[fd := (fh s ! fd)\<lparr>hfile := NULL\<rparr>]\<rparr>)"
  by (auto simp: same_but_free_slots_def nth_list_update)

lemma open_lookup_resolves:
  "resolves s path mode f \<Longrightarrow> open_lookup s (strip_slash path) mode = (Inr f, s)"
  by (auto simp: resolves_def open_lookup_def)

lemma open_locked:
  assumes r: "resolves s path mode f" and root: "root s \<noteq> NULL"
    and e: "files s f = Some e"
    and lock: "openfor e = OPENFOR_WRITE \<or> (openfor e = OPENFOR_READ \<and> wants_write mode)"
  shows "\<exists>s'. ramdisk_open s path mode = (Inl Failed, s') \<and> same_but_free_slots s s'"
proof -
  have f: "f \<noteq> NULL" using r by (simp add: resolves_def)
  have lk: "open_lookup s (strip_slash path) mode = (Inr f, s)" by (rule open_lookup_resolves [OF r])
  let ?fd = "scan_fd (fh s) 1"
  have cm: "\<exists>s'. open_commit s f ?fd mode = (Inl Failed, s') \<and> same_but_free_slots s s'"
    if lt: "?fd < length (fh s)"
  proof -
    have fr: "hfile (fh s ! ?fd) = NULL" by (rule scan_fd_free [OF lt])
    show ?thesis
    proof (cases "openfor e = OPENFOR_WRITE")
      case True
      then show ?thesis using e same_free_slot' [OF lt fr] by (simp add: open_commit_def)
    next
      case False
      then have rd: "openfor e = OPENFOR_READ" and w: "wants_write mode" using lock by auto
      have nz: "mode AND O_MODE_MASK \<noteq> O_RDONLY" using w
        by (auto simp: wants_write_def O_RDONLY_def)
      show ?thesis using e False rd w nz same_free_slot [OF lt fr, where d = "mode AND O_DIR" and m = mode]
        by (simp add: open_commit_def Let_def wants_write_def)
    qed
  qed
  show ?thesis
    using lk f e root cm same_refl [of s]
    by (auto simp: ramdisk_open_def Let_def strip_slash_def [symmetric] not_le)
qed

text \<open>
  C10. When the node at the path is open (locked for reading or for writing),
  \<^verbatim>\<open>fs_ramdisk_attach\<close> returns \<^verbatim>\<open>-1\<close> and the node is as before, with its block pointer, its
  capacity and its logical size; no block is released or changed, the caller's among
  them, which is not installed in the node. Nothing else changes either, except that
  the open that fails on a read lock leaves the flags in the fields \<^verbatim>\<open>dir\<close> and \<^verbatim>\<open>omode\<close> of
  the free slot it had picked.
\<close>

theorem attach_on_open_node:
  assumes r: "resolves s path (O_WRONLY OR O_TRUNC) f" and root: "root s \<noteq> NULL"
    and e: "files s f = Some e"
    and lock: "openfor e = OPENFOR_READ \<or> openfor e = OPENFOR_WRITE"
  shows "fst (fs_ramdisk_attach s path obj sz) = Inl Failed
     \<and> same_but_free_slots s (snd (fs_ramdisk_attach s path obj sz))
     \<and> files (snd (fs_ramdisk_attach s path obj sz)) f = Some e
     \<and> blocks (snd (fs_ramdisk_attach s path obj sz)) obj = blocks s obj
     \<and> blocks (snd (fs_ramdisk_attach s path obj sz)) (data e) = blocks s (data e)"
proof -
  have w: "wants_write (O_WRONLY OR O_TRUNC)" by (simp add: wants_write_def flag_defs)
  from open_locked [OF r root e] lock w
  obtain s' where o: "ramdisk_open s path (O_WRONLY OR O_TRUNC) = (Inl Failed, s')"
    and sm: "same_but_free_slots s s'"
    by blast
  have a: "fs_ramdisk_attach s path obj sz = (Inl Failed, s')"
    by (simp add: fs_ramdisk_attach_def o)
  show ?thesis using sm e by (simp add: a same_but_free_slots_def)
qed

theorem attach_on_open_node_witness:
  "fst (fs_ramdisk_attach (reader_fs\<lparr>blocks := (blocks reader_fs)(0x9000 \<mapsto> [1, 2])\<rparr>) ''blob'' 0x9000 2)
     = Inl Failed
   \<and> map_option data (files (snd (fs_ramdisk_attach
         (reader_fs\<lparr>blocks := (blocks reader_fs)(0x9000 \<mapsto> [1, 2])\<rparr>) ''blob'' 0x9000 2)) 0x3000)
     = Some 0x6000
   \<and> blocks (snd (fs_ramdisk_attach
         (reader_fs\<lparr>blocks := (blocks reader_fs)(0x9000 \<mapsto> [1, 2])\<rparr>) ''blob'' 0x9000 2)) 0x9000
     = Some [1, 2]"
proof -
  let ?s = "reader_fs\<lparr>blocks := (blocks reader_fs)(0x9000 \<mapsto> [1, 2])\<rparr>"
  let ?e = "\<lparr>name = ''blob'', fsize = 3, ftype = 1, openfor = 1, usage = 1,
              data = 0x6000, datasize = 3, dirlist = 0x1000\<rparr>"
  have r: "resolves ?s ''blob'' (O_WRONLY OR O_TRUNC) 0x3000"
    by (simp add: resolves_def strip_slash_def reader_fs_eq eval_defs)
  have root: "root ?s \<noteq> NULL" by (simp add: reader_fs_eq NULL_def)
  have e: "files ?s 0x3000 = Some ?e" by (simp add: reader_fs_eq)
  have lock: "openfor ?e = OPENFOR_READ \<or> openfor ?e = OPENFOR_WRITE"
    by (simp add: OPENFOR_READ_def)
  from attach_on_open_node [OF r root e lock, of "0x9000" 2]
  show ?thesis by (simp add: reader_fs_eq)
qed

section \<open>The invariant\<close>

subsection \<open>Looking up a name\<close>

lemma match_iff:
  "(strlen (name e) = length nm \<and> strncasecmp nm (name e) (length nm) = 0)
     \<longleftrightarrow> lname e = map tolower nm"
proof
  assume a: "strlen (name e) = length nm \<and> strncasecmp nm (name e) (length nm) = 0"
  then have l: "length (name e) = length nm" by (simp add: strlen_def)
  from a have "map tolower (take (length nm) nm) = map tolower (take (length nm) (name e))"
    unfolding strncasecmp_def by (simp split: if_splits)
  then show "lname e = map tolower nm" using l by (simp add: lname_def)
next
  assume a: "lname e = map tolower nm"
  then have "length (map tolower (name e)) = length (map tolower nm)" by (simp add: lname_def)
  then have l: "length (name e) = length nm" by simp
  show "strlen (name e) = length nm \<and> strncasecmp nm (name e) (length nm) = 0"
    using a l unfolding strncasecmp_def strlen_def lname_def by simp
qed

lemma find_entries_found:
  "find_entries fs es nm n = Inr c \<Longrightarrow> c \<noteq> NULL \<Longrightarrow>
   c \<in> set es \<and> (\<exists>e. fs c = Some e \<and> strlen (name e) = n \<and> strncasecmp nm (name e) n = 0)"
proof (induction es)
  case Nil
  then show ?case by simp
next
  case (Cons x es)
  show ?case
  proof (cases "fs x")
    case None
    then show ?thesis using Cons.prems by simp
  next
    case (Some e)
    show ?thesis
    proof (cases "strlen (name e) = n \<and> strncasecmp nm (name e) n = 0")
      case True
      then show ?thesis using Cons.prems Some by simp
    next
      case False
      then have "find_entries fs es nm n = Inr c" using Cons.prems Some by auto
      from Cons.IH [OF this Cons.prems(2)] show ?thesis by simp
    qed
  qed
qed

lemma find_entries_none:
  "find_entries fs es nm n = Inr NULL \<Longrightarrow> fs NULL = None \<Longrightarrow> c \<in> set es \<Longrightarrow> fs c = Some e
   \<Longrightarrow> \<not> (strlen (name e) = n \<and> strncasecmp nm (name e) n = 0)"
proof (induction es)
  case Nil
  then show ?case by simp
next
  case (Cons x es)
  show ?case
  proof (cases "fs x")
    case None
    then show ?thesis using Cons.prems by simp
  next
    case (Some e')
    show ?thesis
    proof (cases "strlen (name e') = n \<and> strncasecmp nm (name e') n = 0")
      case True
      then have "x = NULL" using Cons.prems(1) Some by simp
      then show ?thesis using Some Cons.prems(2) by simp
    next
      case False
      then have r: "find_entries fs es nm n = Inr NULL" using Cons.prems Some by auto
      show ?thesis
      proof (cases "c = x")
        case True
        then show ?thesis using False Some Cons.prems(4) by simp
      next
        case False
        then have "c \<in> set es" using Cons.prems(3) by simp
        from Cons.IH [OF r Cons.prems(2) this Cons.prems(4)] show ?thesis .
      qed
    qed
  qed
qed

lemma find_entries_total:
  "\<forall>c\<in>set es. fs c \<noteq> None \<Longrightarrow> \<exists>r. find_entries fs es nm n = Inr r"
  by (induction es) auto

lemma tree_root: "tree_inv s \<Longrightarrow> root s \<noteq> NULL \<and> rootdir s \<noteq> NULL \<and> files s NULL = None"
  by (simp add: tree_inv_def)

lemma tree_root_node:
  "tree_inv s \<Longrightarrow> \<exists>r. files s (root s) = Some r \<and> ftype r = STAT_TYPE_DIR \<and> data r = rootdir s"
  by (simp add: tree_inv_def)

lemma tree_lists: "tree_inv s \<Longrightarrow> lists s (rootdir s) = Some (entries s)"
  by (simp add: tree_inv_def)

lemma tree_lists_other: "tree_inv s \<Longrightarrow> d \<noteq> rootdir s \<Longrightarrow> lists s d = None"
  by (simp add: tree_inv_def)

lemma tree_distinct: "tree_inv s \<Longrightarrow> distinct (entries s) \<and> root s \<notin> set (entries s)"
  by (simp add: tree_inv_def)

lemma tree_entry:
  "tree_inv s \<Longrightarrow> c \<in> set (entries s) \<Longrightarrow>
   \<exists>e. files s c = Some e \<and> ftype e = STAT_TYPE_FILE \<and> dirlist e = rootdir s"
  unfolding tree_inv_def by blast

lemma tree_nodes: "tree_inv s \<Longrightarrow> files s a = Some e \<Longrightarrow> a = root s \<or> a \<in> set (entries s)"
  unfolding tree_inv_def by blast

lemma tree_names:
  "tree_inv s \<Longrightarrow> c \<in> set (entries s) \<Longrightarrow> c' \<in> set (entries s) \<Longrightarrow> files s c = Some e
   \<Longrightarrow> files s c' = Some e' \<Longrightarrow> lname e = lname e' \<Longrightarrow> c = c'"
  unfolding tree_inv_def by blast

lemma tree_entry_nonnull: "tree_inv s \<Longrightarrow> c \<in> set (entries s) \<Longrightarrow> c \<noteq> NULL"
  using tree_entry [of s c] tree_root [of s] by auto

lemma ramdisk_find_root:
  "tree_inv s \<Longrightarrow> ramdisk_find s (rootdir s) nm n = find_entries (files s) (entries s) nm n"
  by (simp add: ramdisk_find_def tree_lists)

text \<open>Looking a name up among the entries of the root ends without a fault.\<close>

lemma find_root_total:
  assumes "tree_inv s"
  shows "\<exists>r. find_entries (files s) (entries s) nm n = Inr r"
proof -
  have "\<forall>c\<in>set (entries s). files s c \<noteq> None" using tree_entry [OF assms] by fastforce
  then show ?thesis by (rule find_entries_total)
qed

lemma find_root_file:
  assumes t: "tree_inv s" and f: "find_entries (files s) (entries s) nm n = Inr c" and c: "c \<noteq> NULL"
  shows "c \<in> set (entries s) \<and> (\<exists>e. files s c = Some e \<and> ftype e = STAT_TYPE_FILE
           \<and> strlen (name e) = n \<and> strncasecmp nm (name e) n = 0)"
  using find_entries_found [OF f c] tree_entry [OF t, of c] by auto

lemma strchr_Nil: "strchr [] c = None"
  by (simp add: strchr_def)

lemma strchr_Cons_same: "strchr (c # s) c = Some 0"
  by (simp add: strchr_def)

lemma strchr_Cons_other: "x \<noteq> c \<Longrightarrow> strchr (x # s) c = (if c \<in> set s then Some (Suc (length (takeWhile (\<lambda>y. y \<noteq> c) s))) else None)"
  by (simp add: strchr_def)

lemma find_path_slash:
  "find_path_from s parent f0 (CHR ''/'' # fn) d = find_path_from s parent f0 fn d"
  by (subst find_path_from.simps) (simp add: strchr_Cons_same)

text \<open>
  Where the root is the only directory, a path names a file exactly when, after its
  leading slashes, it is a name without a slash that an entry of the root carries.
\<close>

lemma find_path_file:
  assumes t: "tree_inv s"
  shows "find_path_from s (rootdir s) f0 fn 0 =
     (let seg = dropWhile (\<lambda>c. c = CHR ''/'') fn
      in if seg = [] \<or> CHR ''/'' \<in> set seg then Inr NULL
         else find_entries (files s) (entries s) seg (length seg))"
proof (induction fn)
  case Nil
  show ?case by (subst find_path_from.simps) (simp add: strchr_Nil)
next
  case (Cons c rest)
  show ?case
  proof (cases "c = CHR ''/''")
    case True
    then show ?thesis using Cons.IH by (simp add: find_path_slash)
  next
    case False
    obtain r where r: "find_entries (files s) (entries s) (c # rest) (length (c # rest)) = Inr r"
      using find_root_total [OF t] by blast
    show ?thesis
    proof (cases "CHR ''/'' \<in> set rest")
      case True
      let ?k = "Suc (length (takeWhile (\<lambda>y. y \<noteq> CHR ''/'') rest))"
      obtain r' where r': "find_entries (files s) (entries s) (c # rest) ?k = Inr r'"
        using find_root_total [OF t] by blast
      have "r' \<noteq> NULL \<Longrightarrow> \<exists>e. files s r' = Some e \<and> ftype e = STAT_TYPE_FILE"
        using find_root_file [OF t r'] by blast
      then show ?thesis using False True r'
        by (subst find_path_from.simps)
           (auto simp: strchr_Cons_other ramdisk_find_root [OF t] type_defs)
    next
      case nos: False
      have "r \<noteq> NULL \<Longrightarrow> \<exists>e. files s r = Some e \<and> ftype e = STAT_TYPE_FILE"
        using find_root_file [OF t r] by blast
      then show ?thesis using False nos r
        by (subst find_path_from.simps)
           (auto simp: strchr_Cons_other ramdisk_find_root [OF t] type_defs strlen_def)
    qed
  qed
qed

lemma find_path_dir:
  assumes t: "tree_inv s" and d: "d \<noteq> 0"
  shows "find_path_from s (rootdir s) f0 fn d =
     (if dropWhile (\<lambda>c. c = CHR ''/'') fn = [] then Inr f0 else Inr NULL)"
proof (induction fn)
  case Nil
  show ?case using d by (subst find_path_from.simps) (simp add: strchr_Nil)
next
  case (Cons c rest)
  show ?case
  proof (cases "c = CHR ''/''")
    case True
    then show ?thesis using Cons.IH by (simp add: find_path_slash)
  next
    case False
    show ?thesis
    proof (cases "CHR ''/'' \<in> set rest")
      case True
      let ?k = "Suc (length (takeWhile (\<lambda>y. y \<noteq> CHR ''/'') rest))"
      obtain r' where r': "find_entries (files s) (entries s) (c # rest) ?k = Inr r'"
        using find_root_total [OF t] by blast
      have "r' \<noteq> NULL \<Longrightarrow> \<exists>e. files s r' = Some e \<and> ftype e = STAT_TYPE_FILE"
        using find_root_file [OF t r'] by blast
      then show ?thesis using False True r'
        by (subst find_path_from.simps)
           (auto simp: strchr_Cons_other ramdisk_find_root [OF t] type_defs)
    next
      case nos: False
      obtain r where r: "find_entries (files s) (entries s) (c # rest) (length (c # rest)) = Inr r"
        using find_root_total [OF t] by blast
      have "r \<noteq> NULL \<Longrightarrow> \<exists>e. files s r = Some e \<and> ftype e = STAT_TYPE_FILE"
        using find_root_file [OF t r] by blast
      then show ?thesis using False nos r d
        by (subst find_path_from.simps)
           (auto simp: strchr_Cons_other ramdisk_find_root [OF t] type_defs strlen_def)
    qed
  qed
qed

lemma entries_cong: "lists s' = lists s \<Longrightarrow> rootdir s' = rootdir s \<Longrightarrow> entries s' = entries s"
  by (simp add: entries_def)

lemma tree_inv_cong:
  "files s' = files s \<Longrightarrow> lists s' = lists s \<Longrightarrow> root s' = root s \<Longrightarrow> rootdir s' = rootdir s
   \<Longrightarrow> tree_inv s' = tree_inv s"
  using entries_cong [of s' s] by (simp add: tree_inv_def)

lemma refs_cong: "fh s' = fh s \<Longrightarrow> refs s' = refs s"
  by (simp add: refs_def fun_eq_iff)

lemma handle_inv_cong:
  "files s' = files s \<Longrightarrow> fh s' = fh s \<Longrightarrow> root s' = root s \<Longrightarrow> handle_inv s' = handle_inv s"
  using refs_cong [of s' s] by (simp add: handle_inv_def)

lemma fs_inv_cong:
  "files s' = files s \<Longrightarrow> lists s' = lists s \<Longrightarrow> fh s' = fh s \<Longrightarrow> root s' = root s
   \<Longrightarrow> rootdir s' = rootdir s \<Longrightarrow> fs_inv s' = fs_inv s"
  using tree_inv_cong [of s' s] handle_inv_cong [of s' s] by (simp add: fs_inv_def)

text \<open>A node changes in fields the invariant does not read.\<close>

lemma tree_inv_node_update:
  assumes t: "tree_inv s" and e: "files s f = Some e"
    and same: "name e' = name e" "ftype e' = ftype e" "dirlist e' = dirlist e"
      "f = root s \<longrightarrow> data e' = data e"
  shows "tree_inv (s\<lparr>files := (files s)(f \<mapsto> e')\<rparr>)"
proof -
  let ?s = "s\<lparr>files := (files s)(f \<mapsto> e')\<rparr>"
  have en: "entries ?s = entries s" by (simp add: entries_def)
  have fnn: "f \<noteq> NULL" using e tree_root [OF t] by auto
  have ln: "lname e' = lname e" using same(1) by (simp add: lname_def)
  show ?thesis
    unfolding tree_inv_def en
  proof (intro conjI)
    show "root ?s \<noteq> NULL" "rootdir ?s \<noteq> NULL" using tree_root [OF t] by simp_all
    show "files ?s NULL = None" using tree_root [OF t] fnn by simp
    show "\<exists>r. files ?s (root ?s) = Some r \<and> ftype r = STAT_TYPE_DIR \<and> data r = rootdir ?s"
    proof (cases "f = root s")
      case True
      then show ?thesis using tree_root_node [OF t] e same by simp
    next
      case False
      then show ?thesis using tree_root_node [OF t] by simp
    qed
    show "\<forall>d. d \<noteq> rootdir ?s \<longrightarrow> lists ?s d = None" using tree_lists_other [OF t] by simp
    show "lists ?s (rootdir ?s) = Some (entries s)" using tree_lists [OF t] by simp
    show "distinct (entries s)" "root ?s \<notin> set (entries s)" using tree_distinct [OF t] by simp_all
    show "\<forall>c\<in>set (entries s). \<exists>e. files ?s c = Some e \<and> ftype e = STAT_TYPE_FILE
            \<and> dirlist e = rootdir ?s"
    proof
      fix c assume c: "c \<in> set (entries s)"
      from tree_entry [OF t c] obtain x where x: "files s c = Some x" "ftype x = STAT_TYPE_FILE"
          "dirlist x = rootdir s" by blast
      show "\<exists>e. files ?s c = Some e \<and> ftype e = STAT_TYPE_FILE \<and> dirlist e = rootdir ?s"
      proof (cases "c = f")
        case True
        then have "x = e" using x(1) e by simp
        then show ?thesis using True x same by simp
      next
        case False
        then show ?thesis using x by simp
      qed
    qed
    show "\<forall>a. files ?s a \<noteq> None \<longrightarrow> a = root ?s \<or> a \<in> set (entries s)"
    proof (intro allI impI)
      fix a assume a: "files ?s a \<noteq> None"
      then have "files s a \<noteq> None" using e by (cases "a = f") simp_all
      then show "a = root ?s \<or> a \<in> set (entries s)" using tree_nodes [OF t, of a] by auto
    qed
    show "\<forall>c\<in>set (entries s). \<forall>c'\<in>set (entries s). \<forall>e e'.
            files ?s c = Some e \<and> files ?s c' = Some e' \<and> lname e = lname e' \<longrightarrow> c = c'"
    proof (intro ballI allI impI)
      fix c c' x x'
      assume c: "c \<in> set (entries s)" and c': "c' \<in> set (entries s)"
        and a: "files ?s c = Some x \<and> files ?s c' = Some x' \<and> lname x = lname x'"
      have "\<exists>y. files s c = Some y \<and> lname y = lname x"
      proof (cases "c = f")
        case True
        then show ?thesis using a e ln by simp
      next
        case False
        then show ?thesis using a by simp
      qed
      then obtain y where y: "files s c = Some y" "lname y = lname x" by blast
      have "\<exists>y. files s c' = Some y \<and> lname y = lname x'"
      proof (cases "c' = f")
        case True
        then show ?thesis using a e ln by simp
      next
        case False
        then show ?thesis using a by simp
      qed
      then obtain y' where y': "files s c' = Some y'" "lname y' = lname x'" by blast
      show "c = c'" using tree_names [OF t c c' y(1) y'(1)] y(2) y'(2) a by simp
    qed
  qed
qed

lemma filter_length_update:
  "i < length xs \<Longrightarrow>
   length (filter P (xs[i := y])) + (if P (xs ! i) then 1 else 0)
     = length (filter P xs) + (if P y then 1 else 0)"
proof (induction xs arbitrary: i)
  case Nil
  then show ?case by simp
next
  case (Cons x xs)
  then show ?case by (cases i) auto
qed

lemma in_set_update: "x \<in> set (xs[i := y]) \<Longrightarrow> x = y \<or> x \<in> set xs"
  using set_update_subset_insert [of xs i y] by auto

lemma handle_invD1:
  "handle_inv s \<Longrightarrow> h \<in> set (fh s) \<Longrightarrow> hfile h \<noteq> NULL \<Longrightarrow>
   files s (hfile h) \<noteq> None \<and> (dir h \<noteq> 0 \<longleftrightarrow> hfile h = root s)"
  unfolding handle_inv_def by blast

lemma handle_invD2:
  "handle_inv s \<Longrightarrow> a \<noteq> NULL \<Longrightarrow> files s a = Some e \<Longrightarrow>
   usage e = refs s a
   \<and> (openfor e = OPENFOR_NOTHING \<and> refs s a = 0
        \<or> openfor e = OPENFOR_READ \<and> 0 < refs s a
        \<or> openfor e = OPENFOR_WRITE \<and> refs s a = 1)"
  unfolding handle_inv_def by blast

lemma handle_invD3:
  "handle_inv s \<Longrightarrow> a \<noteq> NULL \<Longrightarrow> files s a = Some e \<Longrightarrow> h \<in> set (fh s) \<Longrightarrow> hfile h = a \<Longrightarrow>
   (omode h AND O_MODE_MASK = O_RDONLY \<longleftrightarrow> openfor e = OPENFOR_READ)"
  unfolding handle_inv_def by blast

lemma handle_invI:
  assumes "\<And>h. h \<in> set (fh s) \<Longrightarrow> hfile h \<noteq> NULL \<Longrightarrow>
             files s (hfile h) \<noteq> None \<and> (dir h \<noteq> 0 \<longleftrightarrow> hfile h = root s)"
    and "\<And>a e. a \<noteq> NULL \<Longrightarrow> files s a = Some e \<Longrightarrow>
           usage e = refs s a
           \<and> (openfor e = OPENFOR_NOTHING \<and> refs s a = 0
                \<or> openfor e = OPENFOR_READ \<and> 0 < refs s a
                \<or> openfor e = OPENFOR_WRITE \<and> refs s a = 1)"
    and "\<And>a e h. a \<noteq> NULL \<Longrightarrow> files s a = Some e \<Longrightarrow> h \<in> set (fh s) \<Longrightarrow> hfile h = a \<Longrightarrow>
           (omode h AND O_MODE_MASK = O_RDONLY \<longleftrightarrow> openfor e = OPENFOR_READ)"
  shows "handle_inv s"
  unfolding handle_inv_def using assms by blast

lemma refs_update:
  "fd < length (fh s) \<Longrightarrow>
   refs (s\<lparr>fh := (fh s)[fd := h']\<rparr>) a
     = refs s a - (if hfile (fh s ! fd) = a then 1 else 0) + (if hfile h' = a then 1 else 0)"
  using filter_length_update [of fd "fh s" "\<lambda>h. hfile h = a" h']
  by (simp add: refs_def split: if_splits)

lemma refs_files [simp]: "refs (s\<lparr>files := x\<rparr>) = refs s"
  by (simp add: refs_def fun_eq_iff)

lemma refs_zero: "refs s a = 0 \<Longrightarrow> h \<in> set (fh s) \<Longrightarrow> hfile h \<noteq> a"
  by (auto simp: refs_def filter_empty_conv)

lemma refs_pos: "h \<in> set (fh s) \<Longrightarrow> hfile h = a \<Longrightarrow> 0 < refs s a"
  by (auto simp: refs_def filter_empty_conv)

text \<open>A handle slot changes in fields the invariant does not read.\<close>

lemma handle_inv_slot_update:
  assumes hi: "handle_inv s" and fd: "fd < length (fh s)"
    and hf: "hfile h' = hfile (fh s ! fd)"
    and dm: "hfile (fh s ! fd) \<noteq> NULL \<longrightarrow> dir h' = dir (fh s ! fd) \<and> omode h' = omode (fh s ! fd)"
  shows "handle_inv (s\<lparr>fh := (fh s)[fd := h']\<rparr>)"
proof (rule handle_invI)
  let ?s = "s\<lparr>fh := (fh s)[fd := h']\<rparr>"
  have old: "fh s ! fd \<in> set (fh s)" using fd by simp
  have cnt: "refs ?s a = refs s a" for a
    using refs_update [OF fd, of h' a] hf by simp
  {
    fix h assume h: "h \<in> set (fh ?s)" and nn: "hfile h \<noteq> NULL"
    from h have "h = h' \<or> h \<in> set (fh s)" by (simp add: in_set_update)
    then show "files ?s (hfile h) \<noteq> None \<and> (dir h \<noteq> 0 \<longleftrightarrow> hfile h = root ?s)"
    proof
      assume "h = h'"
      then show ?thesis using handle_invD1 [OF hi old] hf dm nn by simp
    next
      assume "h \<in> set (fh s)"
      then show ?thesis using handle_invD1 [OF hi _ nn] by simp
    qed
  }
  {
    fix a e assume an: "a \<noteq> NULL" and e: "files ?s a = Some e"
    then show "usage e = refs ?s a
           \<and> (openfor e = OPENFOR_NOTHING \<and> refs ?s a = 0
                \<or> openfor e = OPENFOR_READ \<and> 0 < refs ?s a
                \<or> openfor e = OPENFOR_WRITE \<and> refs ?s a = 1)"
      using handle_invD2 [OF hi an, of e] cnt [of a] by auto
  }
  {
    fix a e h assume an: "a \<noteq> NULL" and e: "files ?s a = Some e" and h: "h \<in> set (fh ?s)"
      and a: "hfile h = a"
    from h have "h = h' \<or> h \<in> set (fh s)" by (simp add: in_set_update)
    then show "omode h AND O_MODE_MASK = O_RDONLY \<longleftrightarrow> openfor e = OPENFOR_READ"
    proof
      assume hh: "h = h'"
      then have "hfile (fh s ! fd) = a" using hf a by simp
      then show ?thesis using handle_invD3 [OF hi an _ old, of e] e an hh dm by simp
    next
      assume "h \<in> set (fh s)"
      then show ?thesis using handle_invD3 [OF hi an _ _ a, of e] e by simp
    qed
  }
qed

lemma lock_distinct:
  "OPENFOR_NOTHING \<noteq> OPENFOR_READ" "OPENFOR_NOTHING \<noteq> OPENFOR_WRITE" "OPENFOR_READ \<noteq> OPENFOR_WRITE"
  "OPENFOR_READ \<noteq> OPENFOR_NOTHING" "OPENFOR_WRITE \<noteq> OPENFOR_NOTHING" "OPENFOR_WRITE \<noteq> OPENFOR_READ"
  by (simp_all add: lock_defs)

lemma refs_none: "\<forall>h\<in>set (fh s). hfile h \<noteq> a \<Longrightarrow> refs s a = 0"
  by (simp add: refs_def filter_empty_conv)

lemma refs_unallocated:
  assumes "handle_inv s" "a \<noteq> NULL" "files s a = None"
  shows "refs s a = 0"
proof (rule refs_none, rule ballI)
  fix h assume "h \<in> set (fh s)"
  then show "hfile h \<noteq> a" using handle_invD1 [OF assms(1), of h] assms(2,3) by auto
qed

text \<open>A node changes in fields the handle invariant does not read.\<close>

lemma handle_inv_node_update:
  assumes hi: "handle_inv s" and e: "files s f = Some e"
    and same: "usage e' = usage e" "openfor e' = openfor e"
    and s': "files s' = (files s)(f \<mapsto> e')" "fh s' = fh s" "root s' = root s"
  shows "handle_inv s'"
proof (rule handle_invI)
  have r: "refs s' = refs s" by (rule refs_cong [OF s'(2)])
  {
    fix h assume "h \<in> set (fh s')" and "hfile h \<noteq> NULL"
    then show "files s' (hfile h) \<noteq> None \<and> (dir h \<noteq> 0 \<longleftrightarrow> hfile h = root s')"
      using handle_invD1 [OF hi, of h] s' by simp
  }
  {
    fix a x assume an: "a \<noteq> NULL" and x: "files s' a = Some x"
    show "usage x = refs s' a
           \<and> (openfor x = OPENFOR_NOTHING \<and> refs s' a = 0
                \<or> openfor x = OPENFOR_READ \<and> 0 < refs s' a
                \<or> openfor x = OPENFOR_WRITE \<and> refs s' a = 1)"
    proof (cases "a = f")
      case True
      then have "x = e'" using x s' by simp
      then show ?thesis using handle_invD2 [OF hi an, of e] True e same r by simp
    next
      case False
      then show ?thesis using handle_invD2 [OF hi an, of x] x s' r by simp
    qed
  }
  {
    fix a x h assume an: "a \<noteq> NULL" and x: "files s' a = Some x" and h: "h \<in> set (fh s')"
      and a: "hfile h = a"
    show "omode h AND O_MODE_MASK = O_RDONLY \<longleftrightarrow> openfor x = OPENFOR_READ"
    proof (cases "a = f")
      case True
      then have "x = e'" using x s' by simp
      then show ?thesis using handle_invD3 [OF hi an _ _ a, of e] True e same h s' by simp
    next
      case False
      then show ?thesis using handle_invD3 [OF hi an _ _ a, of x] x h s' by simp
    qed
  }
qed

text \<open>A free slot takes a handle on the node \<open>f\<close>, the node its lock and one more use.\<close>

lemma handle_inv_install:
  assumes hi: "handle_inv s" and fd: "fd < length (fh s)" and free: "hfile (fh s ! fd) = NULL"
    and f: "f \<noteq> NULL" and e: "files s f = Some e"
    and h': "hfile h' = f" "dir h' \<noteq> 0 \<longleftrightarrow> f = root s"
    and us: "usage e' = usage e + 1"
    and lock: "(omode h' AND O_MODE_MASK = O_RDONLY \<and> openfor e \<noteq> OPENFOR_WRITE
                 \<and> openfor e' = OPENFOR_READ)
               \<or> (omode h' AND O_MODE_MASK \<noteq> O_RDONLY \<and> openfor e = OPENFOR_NOTHING
                 \<and> openfor e' = OPENFOR_WRITE)"
    and s': "files s' = (files s)(f \<mapsto> e')" "fh s' = (fh s)[fd := h']" "root s' = root s"
  shows "handle_inv s'"
proof (rule handle_invI)
  have r: "refs s' a = refs s a + (if a = f then 1 else 0)" if "a \<noteq> NULL" for a
  proof -
    have "refs s' = refs (s\<lparr>fh := (fh s)[fd := h']\<rparr>)" by (rule refs_cong) (simp add: s')
    then show ?thesis using refs_update [OF fd, of h' a] free that h' by auto
  qed
  have st: "usage e = refs s f" "openfor e = OPENFOR_NOTHING \<and> refs s f = 0
                \<or> openfor e = OPENFOR_READ \<and> 0 < refs s f
                \<or> openfor e = OPENFOR_WRITE \<and> refs s f = 1"
    using handle_invD2 [OF hi f e] by simp_all
  {
    fix h assume h: "h \<in> set (fh s')" and nn: "hfile h \<noteq> NULL"
    from h have "h = h' \<or> h \<in> set (fh s)" by (simp add: s' in_set_update)
    then show "files s' (hfile h) \<noteq> None \<and> (dir h \<noteq> 0 \<longleftrightarrow> hfile h = root s')"
    proof
      assume "h = h'"
      then show ?thesis using h' s' by simp
    next
      assume "h \<in> set (fh s)"
      then show ?thesis using handle_invD1 [OF hi _ nn] s' by simp
    qed
  }
  {
    fix a x assume an: "a \<noteq> NULL" and x: "files s' a = Some x"
    show "usage x = refs s' a
           \<and> (openfor x = OPENFOR_NOTHING \<and> refs s' a = 0
                \<or> openfor x = OPENFOR_READ \<and> 0 < refs s' a
                \<or> openfor x = OPENFOR_WRITE \<and> refs s' a = 1)"
    proof (cases "a = f")
      case True
      then have "x = e'" using x s' by simp
      then show ?thesis using True st us lock r [OF an] by (auto simp: lock_distinct)
    next
      case False
      then show ?thesis using handle_invD2 [OF hi an, of x] x s' r [OF an] by simp
    qed
  }
  {
    fix a x h assume an: "a \<noteq> NULL" and x: "files s' a = Some x" and h: "h \<in> set (fh s')"
      and a: "hfile h = a"
    from h have hc: "h = h' \<or> h \<in> set (fh s)" by (simp add: s' in_set_update)
    show "omode h AND O_MODE_MASK = O_RDONLY \<longleftrightarrow> openfor x = OPENFOR_READ"
    proof (cases "a = f")
      case True
      then have xe: "x = e'" using x s' by simp
      from hc show ?thesis
      proof
        assume "h = h'"
        then show ?thesis using xe lock by (auto simp: lock_distinct)
      next
        assume old: "h \<in> set (fh s)"
        have pos: "0 < refs s f" using refs_pos [OF old] a True by simp
        have "omode h AND O_MODE_MASK = O_RDONLY \<longleftrightarrow> openfor e = OPENFOR_READ"
          using handle_invD3 [OF hi f e old] a True by simp
        then show ?thesis using xe lock st pos by (auto simp: lock_distinct)
      qed
    next
      case False
      then have "h \<noteq> h'" using a h' by auto
      then have "h \<in> set (fh s)" using hc by simp
      then show ?thesis using handle_invD3 [OF hi an _ _ a, of x] x False s' by simp
    qed
  }
qed

text \<open>A handle is released: the slot is free again, the node has one use less.\<close>

lemma handle_inv_release:
  assumes hi: "handle_inv s" and fd: "fd < length (fh s)" and hf: "hfile (fh s ! fd) = f"
    and f: "f \<noteq> NULL" and e: "files s f = Some e"
    and h': "hfile h' = NULL"
    and us: "usage e' = usage e - 1"
    and lock: "openfor e' = (if usage e - 1 = 0 then OPENFOR_NOTHING else openfor e)"
    and s': "files s' = (files s)(f \<mapsto> e')" "fh s' = (fh s)[fd := h']" "root s' = root s"
  shows "handle_inv s'"
proof (rule handle_invI)
  have r: "refs s' a = refs s a - (if a = f then 1 else 0)" if "a \<noteq> NULL" for a
  proof -
    have "refs s' = refs (s\<lparr>fh := (fh s)[fd := h']\<rparr>)" by (rule refs_cong) (simp add: s')
    then show ?thesis using refs_update [OF fd, of h' a] hf that h' by auto
  qed
  have old: "fh s ! fd \<in> set (fh s)" using fd by simp
  have pos: "0 < refs s f" using refs_pos [OF old hf] .
  have st: "usage e = refs s f" "openfor e = OPENFOR_NOTHING \<and> refs s f = 0
                \<or> openfor e = OPENFOR_READ \<and> 0 < refs s f
                \<or> openfor e = OPENFOR_WRITE \<and> refs s f = 1"
    using handle_invD2 [OF hi f e] by simp_all
  {
    fix h assume h: "h \<in> set (fh s')" and nn: "hfile h \<noteq> NULL"
    from h have "h = h' \<or> h \<in> set (fh s)" by (simp add: s' in_set_update)
    then show "files s' (hfile h) \<noteq> None \<and> (dir h \<noteq> 0 \<longleftrightarrow> hfile h = root s')"
    proof
      assume "h = h'"
      then show ?thesis using h' nn by simp
    next
      assume "h \<in> set (fh s)"
      then show ?thesis using handle_invD1 [OF hi _ nn] s' by simp
    qed
  }
  {
    fix a x assume an: "a \<noteq> NULL" and x: "files s' a = Some x"
    show "usage x = refs s' a
           \<and> (openfor x = OPENFOR_NOTHING \<and> refs s' a = 0
                \<or> openfor x = OPENFOR_READ \<and> 0 < refs s' a
                \<or> openfor x = OPENFOR_WRITE \<and> refs s' a = 1)"
    proof (cases "a = f")
      case True
      then have "x = e'" using x s' by simp
      then show ?thesis using True st us lock pos r [OF an] by (auto simp: lock_distinct)
    next
      case False
      then show ?thesis using handle_invD2 [OF hi an, of x] x s' r [OF an] by simp
    qed
  }
  {
    fix a x h assume an: "a \<noteq> NULL" and x: "files s' a = Some x" and h: "h \<in> set (fh s')"
      and a: "hfile h = a"
    from h have hc: "h = h' \<or> h \<in> set (fh s)" by (simp add: s' in_set_update)
    have "h \<noteq> h'" using a an h' by auto
    then have old': "h \<in> set (fh s)" using hc by simp
    show "omode h AND O_MODE_MASK = O_RDONLY \<longleftrightarrow> openfor x = OPENFOR_READ"
    proof (cases "a = f")
      case True
      then have xe: "x = e'" using x s' by simp
      have "0 < refs s' f" using refs_pos [OF h] a True by simp
      then have "usage e - 1 \<noteq> 0" using r [OF f] st(1) by simp
      then have "openfor e' = openfor e" using lock by simp
      then show ?thesis using handle_invD3 [OF hi f e old'] a True xe by simp
    next
      case False
      then show ?thesis using handle_invD3 [OF hi an _ old' a, of x] x s' by simp
    qed
  }
qed

text \<open>A new node, of which no handle knows, and the removal of a node without handles.\<close>

lemma handle_inv_create:
  assumes hi: "handle_inv s" and f: "f \<noteq> NULL" "files s f = None"
    and n: "usage e' = 0" "openfor e' = OPENFOR_NOTHING"
    and s': "files s' = (files s)(f \<mapsto> e')" "fh s' = fh s" "root s' = root s"
  shows "handle_inv s'"
proof (rule handle_invI)
  have r: "refs s' = refs s" by (rule refs_cong [OF s'(2)])
  have z: "refs s f = 0" by (rule refs_unallocated [OF hi f])
  {
    fix h assume "h \<in> set (fh s')" and "hfile h \<noteq> NULL"
    then show "files s' (hfile h) \<noteq> None \<and> (dir h \<noteq> 0 \<longleftrightarrow> hfile h = root s')"
      using handle_invD1 [OF hi, of h] s' by simp
  }
  {
    fix a x assume an: "a \<noteq> NULL" and x: "files s' a = Some x"
    show "usage x = refs s' a
           \<and> (openfor x = OPENFOR_NOTHING \<and> refs s' a = 0
                \<or> openfor x = OPENFOR_READ \<and> 0 < refs s' a
                \<or> openfor x = OPENFOR_WRITE \<and> refs s' a = 1)"
    proof (cases "a = f")
      case True
      then have "x = e'" using x s' by simp
      then show ?thesis using True n z r by simp
    next
      case False
      then show ?thesis using handle_invD2 [OF hi an, of x] x s' r by simp
    qed
  }
  {
    fix a x h assume an: "a \<noteq> NULL" and x: "files s' a = Some x" and h: "h \<in> set (fh s')"
      and a: "hfile h = a"
    have "a \<noteq> f" using refs_zero [OF z, of h] h a s' by auto
    then show "omode h AND O_MODE_MASK = O_RDONLY \<longleftrightarrow> openfor x = OPENFOR_READ"
      using handle_invD3 [OF hi an _ _ a, of x] x h s' by simp
  }
qed

lemma handle_inv_remove:
  assumes hi: "handle_inv s" and f: "f \<noteq> NULL" "files s f = Some e" "usage e = 0"
    and s': "files s' = (files s)(f := None)" "fh s' = fh s" "root s' = root s"
  shows "handle_inv s'"
proof (rule handle_invI)
  have r: "refs s' = refs s" by (rule refs_cong [OF s'(2)])
  have z: "refs s f = 0" using handle_invD2 [OF hi f(1,2)] f(3) by simp
  {
    fix h assume h: "h \<in> set (fh s')" and nn: "hfile h \<noteq> NULL"
    have "hfile h \<noteq> f" using refs_zero [OF z, of h] h s' by auto
    then show "files s' (hfile h) \<noteq> None \<and> (dir h \<noteq> 0 \<longleftrightarrow> hfile h = root s')"
      using handle_invD1 [OF hi, of h] h nn s' by simp
  }
  {
    fix a x assume an: "a \<noteq> NULL" and x: "files s' a = Some x"
    have "a \<noteq> f" using x s' by auto
    then show "usage x = refs s' a
           \<and> (openfor x = OPENFOR_NOTHING \<and> refs s' a = 0
                \<or> openfor x = OPENFOR_READ \<and> 0 < refs s' a
                \<or> openfor x = OPENFOR_WRITE \<and> refs s' a = 1)"
      using handle_invD2 [OF hi an, of x] x s' r by simp
  }
  {
    fix a x h assume an: "a \<noteq> NULL" and x: "files s' a = Some x" and h: "h \<in> set (fh s')"
      and a: "hfile h = a"
    have "a \<noteq> f" using x s' by auto
    then show "omode h AND O_MODE_MASK = O_RDONLY \<longleftrightarrow> openfor x = OPENFOR_READ"
      using handle_invD3 [OF hi an _ _ a, of x] x h s' by simp
  }
qed

text \<open>A new file at the head of the root's list; an entry taken out of it.\<close>

lemma tree_inv_create:
  assumes t: "tree_inv s" and f: "f \<noteq> NULL" "files s f = None"
    and nm: "\<forall>c\<in>set (entries s). \<forall>x. files s c = Some x \<longrightarrow> lname x \<noteq> lname e'"
    and n: "ftype e' = STAT_TYPE_FILE" "dirlist e' = rootdir s"
    and s': "files s' = (files s)(f \<mapsto> e')" "lists s' = (lists s)(rootdir s \<mapsto> f # entries s)"
      "root s' = root s" "rootdir s' = rootdir s"
  shows "tree_inv s'"
proof -
  have en: "entries s' = f # entries s" by (simp add: entries_def s')
  have fr: "f \<noteq> root s" using tree_root_node [OF t] f by auto
  have fe: "f \<notin> set (entries s)" using tree_entry [OF t, of f] f by auto
  show ?thesis
    unfolding tree_inv_def en
  proof (intro conjI)
    show "root s' \<noteq> NULL" "rootdir s' \<noteq> NULL" using tree_root [OF t] s' by simp_all
    show "files s' NULL = None" using tree_root [OF t] f s' by simp
    show "\<exists>r. files s' (root s') = Some r \<and> ftype r = STAT_TYPE_DIR \<and> data r = rootdir s'"
      using tree_root_node [OF t] fr s' by simp
    show "\<forall>d. d \<noteq> rootdir s' \<longrightarrow> lists s' d = None" using tree_lists_other [OF t] s' by simp
    show "lists s' (rootdir s') = Some (f # entries s)" using s' by simp
    show "distinct (f # entries s)" using tree_distinct [OF t] fe by simp
    show "root s' \<notin> set (f # entries s)" using tree_distinct [OF t] fr s' by simp
    show "\<forall>c\<in>set (f # entries s). \<exists>e. files s' c = Some e \<and> ftype e = STAT_TYPE_FILE
            \<and> dirlist e = rootdir s'"
    proof
      fix c assume c: "c \<in> set (f # entries s)"
      show "\<exists>e. files s' c = Some e \<and> ftype e = STAT_TYPE_FILE \<and> dirlist e = rootdir s'"
      proof (cases "c = f")
        case True
        then show ?thesis using n s' by simp
      next
        case False
        then have "c \<in> set (entries s)" using c by simp
        then show ?thesis using tree_entry [OF t, of c] False s' by simp
      qed
    qed
    show "\<forall>a. files s' a \<noteq> None \<longrightarrow> a = root s' \<or> a \<in> set (f # entries s)"
    proof (intro allI impI)
      fix a assume a: "files s' a \<noteq> None"
      show "a = root s' \<or> a \<in> set (f # entries s)"
      proof (cases "a = f")
        case True
        then show ?thesis by simp
      next
        case False
        then have "files s a \<noteq> None" using a s' by simp
        then show ?thesis using tree_nodes [OF t, of a] s' by auto
      qed
    qed
    show "\<forall>c\<in>set (f # entries s). \<forall>c'\<in>set (f # entries s). \<forall>e e'.
            files s' c = Some e \<and> files s' c' = Some e' \<and> lname e = lname e' \<longrightarrow> c = c'"
    proof (intro ballI allI impI)
      fix c c' x x'
      assume c: "c \<in> set (f # entries s)" and c': "c' \<in> set (f # entries s)"
        and a: "files s' c = Some x \<and> files s' c' = Some x' \<and> lname x = lname x'"
      show "c = c'"
      proof (cases "c = f")
        case cf: True
        show ?thesis
        proof (cases "c' = f")
          case True
          then show ?thesis using cf by simp
        next
          case False
          then have "c' \<in> set (entries s)" "files s c' = Some x'" "x = e'"
            using c' a cf s' by simp_all
          then show ?thesis using nm a by auto
        qed
      next
        case cf: False
        then have 1: "c \<in> set (entries s)" "files s c = Some x" using c a s' by simp_all
        show ?thesis
        proof (cases "c' = f")
          case True
          then have "x' = e'" using a s' by simp
          then show ?thesis using nm 1 a by auto
        next
          case False
          then have "c' \<in> set (entries s)" "files s c' = Some x'" using c' a s' by simp_all
          then show ?thesis using tree_names [OF t 1(1) _ 1(2)] a by blast
        qed
      qed
    qed
  qed
qed

lemma tree_inv_remove:
  assumes t: "tree_inv s" and f: "f \<in> set (entries s)"
    and s': "files s' = (files s)(f := None)"
      "lists s' = (lists s)(rootdir s \<mapsto> remove1 f (entries s))"
      "root s' = root s" "rootdir s' = rootdir s"
  shows "tree_inv s'"
proof -
  have en: "entries s' = remove1 f (entries s)" by (simp add: entries_def s')
  have d: "distinct (entries s)" using tree_distinct [OF t] by simp
  have st: "set (remove1 f (entries s)) = set (entries s) - {f}" using d by simp
  have fr: "f \<noteq> root s" using tree_distinct [OF t] f by auto
  have fn: "f \<noteq> NULL" using tree_entry_nonnull [OF t f] .
  show ?thesis
    unfolding tree_inv_def en st
  proof (intro conjI)
    show "root s' \<noteq> NULL" "rootdir s' \<noteq> NULL" using tree_root [OF t] s' by simp_all
    show "files s' NULL = None" using tree_root [OF t] s' by simp
    show "\<exists>r. files s' (root s') = Some r \<and> ftype r = STAT_TYPE_DIR \<and> data r = rootdir s'"
      using tree_root_node [OF t] fr s' by simp
    show "\<forall>d. d \<noteq> rootdir s' \<longrightarrow> lists s' d = None" using tree_lists_other [OF t] s' by simp
    show "lists s' (rootdir s') = Some (remove1 f (entries s))" using s' by simp
    show "distinct (remove1 f (entries s))" using d by simp
    show "root s' \<notin> set (entries s) - {f}" using tree_distinct [OF t] s' by simp
    show "\<forall>c\<in>set (entries s) - {f}. \<exists>e. files s' c = Some e \<and> ftype e = STAT_TYPE_FILE
            \<and> dirlist e = rootdir s'"
      using tree_entry [OF t] s' by simp
    show "\<forall>a. files s' a \<noteq> None \<longrightarrow> a = root s' \<or> a \<in> set (entries s) - {f}"
    proof (intro allI impI)
      fix a assume a: "files s' a \<noteq> None"
      then have "a \<noteq> f" "files s a \<noteq> None" using s' by (auto split: if_splits)
      then show "a = root s' \<or> a \<in> set (entries s) - {f}" using tree_nodes [OF t, of a] s' by auto
    qed
    show "\<forall>c\<in>set (entries s) - {f}. \<forall>c'\<in>set (entries s) - {f}. \<forall>e e'.
            files s' c = Some e \<and> files s' c' = Some e' \<and> lname e = lname e' \<longrightarrow> c = c'"
    proof (intro ballI allI impI)
      fix c c' x x'
      assume c: "c \<in> set (entries s) - {f}" and c': "c' \<in> set (entries s) - {f}"
        and a: "files s' c = Some x \<and> files s' c' = Some x' \<and> lname x = lname x'"
      have "files s c = Some x" "files s c' = Some x'" using c c' a s' by simp_all
      then show "c = c'" using tree_names [OF t, of c c' x x'] c c' a by simp
    qed
  qed
qed

lemma tree_inv_node_update':
  assumes t: "tree_inv s" and e: "files s f = Some e"
    and same: "name e' = name e" "ftype e' = ftype e" "dirlist e' = dirlist e"
      "f = root s \<longrightarrow> data e' = data e"
    and s': "files s' = (files s)(f \<mapsto> e')" "lists s' = lists s" "root s' = root s"
      "rootdir s' = rootdir s"
  shows "tree_inv s'"
proof -
  have "tree_inv (s\<lparr>files := (files s)(f \<mapsto> e')\<rparr>)"
    by (rule tree_inv_node_update [OF t e same])
  moreover have "tree_inv s' = tree_inv (s\<lparr>files := (files s)(f \<mapsto> e')\<rparr>)"
    by (rule tree_inv_cong) (simp_all add: s')
  ultimately show ?thesis by simp
qed

lemma handle_inv_slot_update':
  assumes hi: "handle_inv s" and fd: "fd < length (fh s)"
    and hf: "hfile h' = hfile (fh s ! fd)"
    and dm: "hfile (fh s ! fd) \<noteq> NULL \<longrightarrow> dir h' = dir (fh s ! fd) \<and> omode h' = omode (fh s ! fd)"
    and s': "files s' = files s" "fh s' = (fh s)[fd := h']" "root s' = root s"
  shows "handle_inv s'"
proof -
  have "handle_inv (s\<lparr>fh := (fh s)[fd := h']\<rparr>)"
    by (rule handle_inv_slot_update [OF hi fd hf dm])
  moreover have "handle_inv s' = handle_inv (s\<lparr>fh := (fh s)[fd := h']\<rparr>)"
    by (rule handle_inv_cong) (simp_all add: s')
  ultimately show ?thesis by simp
qed

lemma fs_inv_tree: "fs_inv s \<Longrightarrow> tree_inv s"
  by (simp add: fs_inv_def)

lemma fs_inv_handle: "fs_inv s \<Longrightarrow> handle_inv s"
  by (simp add: fs_inv_def)

lemma crashed_simps [simp]:
  "crashed (Inl Abort)" "crashed (Inl Fault)" "\<not> crashed (Inl Failed)" "\<not> crashed (Inl EBADF)"
  "\<not> crashed (Inl EINVAL)" "\<not> crashed (Inl ENOENT)" "\<not> crashed (Inr x)"
  by (simp_all add: crashed_def)

subsection \<open>Close keeps the invariant\<close>

lemma close_inv:
  assumes inv: "fs_inv s" and r: "ramdisk_close s h = (r, s')" and nc: "\<not> crashed r"
  shows "fs_inv s'"
proof (cases "0 \<le> h \<and> nat h < length (fh s) \<and> hfile (fh s ! nat h) \<noteq> NULL")
  case False
  then have "s' = s" using r nc by (auto simp: ramdisk_close_def Let_def split: if_splits)
  then show ?thesis using inv by simp
next
  case True
  let ?fd = "nat h"
  let ?f = "hfile (fh s ! ?fd)"
  obtain e where e: "files s ?f = Some e"
    using True r nc by (cases "files s ?f") (auto simp: ramdisk_close_def Let_def)
  let ?e' = "if usage e - 1 = 0 then e\<lparr>usage := usage e - 1, openfor := OPENFOR_NOTHING\<rparr>
             else e\<lparr>usage := usage e - 1\<rparr>"
  let ?h' = "(fh s ! ?fd)\<lparr>hfile := NULL\<rparr>"
  have s': "s' = s\<lparr>fh := (fh s)[?fd := ?h'], files := (files s)(?f \<mapsto> ?e')\<rparr>"
    using True r nc e by (auto simp: ramdisk_close_def Let_def split: if_splits)
  have t: "tree_inv s'"
    by (rule tree_inv_node_update' [OF fs_inv_tree [OF inv] e, where e' = ?e']) (simp_all add: s')
  have hi: "handle_inv s'"
    by (rule handle_inv_release [where fd = ?fd and h' = ?h' and e' = ?e',
          OF fs_inv_handle [OF inv] _ refl _ e])
       (use True in \<open>simp_all add: s'\<close>)
  show ?thesis using t hi by (simp add: fs_inv_def)
qed

subsection \<open>Calls that move a cursor keep the invariant\<close>

lemma fs_inv_cursor:
  assumes inv: "fs_inv s" and fd: "fd < length (fh s)"
  shows "fs_inv (s\<lparr>fh := (fh s)[fd := (fh s ! fd)\<lparr>ptr := p\<rparr>]\<rparr>)"
    and "fs_inv (s\<lparr>fh := (fh s)[fd := (fh s ! fd)\<lparr>ptr := p, dirent := de\<rparr>]\<rparr>)"
proof -
  have a: "fs_inv (s\<lparr>fh := (fh s)[fd := h']\<rparr>)"
    if "hfile h' = hfile (fh s ! fd)" "dir h' = dir (fh s ! fd)" "omode h' = omode (fh s ! fd)"
    for h'
  proof -
    have "tree_inv (s\<lparr>fh := (fh s)[fd := h']\<rparr>) = tree_inv s" by (rule tree_inv_cong) simp_all
    moreover have "handle_inv (s\<lparr>fh := (fh s)[fd := h']\<rparr>)"
      by (rule handle_inv_slot_update [OF fs_inv_handle [OF inv] fd]) (simp_all add: that)
    ultimately show ?thesis using inv by (simp add: fs_inv_def)
  qed
  show "fs_inv (s\<lparr>fh := (fh s)[fd := (fh s ! fd)\<lparr>ptr := p\<rparr>]\<rparr>)" by (rule a) simp_all
  show "fs_inv (s\<lparr>fh := (fh s)[fd := (fh s ! fd)\<lparr>ptr := p, dirent := de\<rparr>]\<rparr>)"
    by (rule a) simp_all
qed

lemma read_inv:
  assumes inv: "fs_inv s" and r: "ramdisk_read s h bytes = (r, s')"
  shows "fs_inv s'"
  using r inv fs_inv_cursor(1) [OF inv]
  by (auto simp: ramdisk_read_def Let_def split: if_splits option.splits)

lemma seek_inv:
  assumes inv: "fs_inv s" and r: "ramdisk_seek s h offset whence = (r, s')"
  shows "fs_inv s'"
  using r inv fs_inv_cursor(1) [OF inv]
  by (auto simp: ramdisk_seek_def Let_def split: if_splits option.splits sum.splits)

lemma readdir_inv:
  assumes inv: "fs_inv s" and r: "ramdisk_readdir s h = (r, s')"
  shows "fs_inv s'"
  using r inv fs_inv_cursor(2) [OF inv]
  by (auto simp: ramdisk_readdir_def Let_def split: if_splits option.splits sum.splits)

lemma rewinddir_inv:
  assumes inv: "fs_inv s" and r: "ramdisk_rewinddir s h = (r, s')"
  shows "fs_inv s'"
  using r inv fs_inv_cursor(1) [OF inv]
  by (auto simp: ramdisk_rewinddir_def Let_def split: if_splits option.splits sum.splits)

subsection \<open>Writing keeps the invariant\<close>

lemma fs_inv_node_cursor:
  assumes inv: "fs_inv s" and e: "files s f = Some e" and fr: "f \<noteq> root s"
    and same: "name e' = name e" "ftype e' = ftype e" "dirlist e' = dirlist e"
      "usage e' = usage e" "openfor e' = openfor e"
    and fd: "fd < length (fh s)"
    and h': "hfile h' = hfile (fh s ! fd)" "dir h' = dir (fh s ! fd)" "omode h' = omode (fh s ! fd)"
    and s': "files s' = (files s)(f \<mapsto> e')" "fh s' = (fh s)[fd := h']" "lists s' = lists s"
      "root s' = root s" "rootdir s' = rootdir s"
  shows "fs_inv s'"
proof -
  let ?m = "s\<lparr>files := (files s)(f \<mapsto> e')\<rparr>"
  have t: "tree_inv s'"
    by (rule tree_inv_node_update' [OF fs_inv_tree [OF inv] e, where e' = e'])
       (simp_all add: same fr s')
  have hm: "handle_inv ?m"
    by (rule handle_inv_node_update [OF fs_inv_handle [OF inv] e, where e' = e'])
       (simp_all add: same)
  have "handle_inv s'"
    by (rule handle_inv_slot_update' [OF hm, where fd = fd and h' = h'])
       (simp_all add: fd h' s')
  then show ?thesis using t by (simp add: fs_inv_def)
qed

lemma file_handle_not_root:
  assumes inv: "fs_inv s" and fd: "fd < length (fh s)" and nn: "hfile (fh s ! fd) \<noteq> NULL"
    and d: "dir (fh s ! fd) = 0"
  shows "hfile (fh s ! fd) \<noteq> root s"
  using handle_invD1 [OF fs_inv_handle [OF inv], of "fh s ! fd"] fd nn d by simp

lemma realloc_frame:
  assumes "realloc s p n = (rr, s1)"
  shows "files s1 = files s \<and> fh s1 = fh s \<and> lists s1 = lists s \<and> root s1 = root s
         \<and> rootdir s1 = rootdir s"
  using assms
  by (auto simp: realloc_def malloc_def next_alloc_def
        split: if_splits option.splits list.splits prod.splits)

lemma write_inv:
  assumes inv: "fs_inv s" and r: "ramdisk_write s h buf bytes = (r, s')" and nc: "\<not> crashed r"
  shows "fs_inv s'"
proof (cases "0 \<le> h \<and> nat h < length (fh s) \<and> hfile (fh s ! nat h) \<noteq> NULL \<and> dir (fh s ! nat h) = 0")
  case False
  then have "s' = s" using r nc by (auto simp: ramdisk_write_def Let_def split: if_splits)
  then show ?thesis using inv by simp
next
  case True
  let ?fd = "nat h"
  let ?f = "hfile (fh s ! ?fd)"
  let ?p = "ptr (fh s ! ?fd)"
  have fr: "?f \<noteq> root s" using file_handle_not_root [OF inv] True by simp
  obtain e where e: "files s ?f = Some e"
    using True r nc by (cases "files s ?f") (auto simp: ramdisk_write_def Let_def)
  show ?thesis
  proof (cases "openfor e = OPENFOR_WRITE")
    case False
    then have "s' = s" using r True e by (simp add: ramdisk_write_def Let_def)
    then show ?thesis using inv by simp
  next
    case w: True
    text \<open>The state and the file after the block has grown, if it had to.\<close>
    have "\<exists>s1 e1. files s1 = files s \<and> fh s1 = fh s \<and> lists s1 = lists s \<and> root s1 = root s
          \<and> rootdir s1 = rootdir s
          \<and> name e1 = name e \<and> ftype e1 = ftype e \<and> dirlist e1 = dirlist e
          \<and> usage e1 = usage e \<and> openfor e1 = openfor e
          \<and> (s' = s1 \<or>
              (\<exists>b. s' = s1\<lparr>blocks := b,
                  fh := (fh s1)[?fd := (fh s1 ! ?fd)\<lparr>ptr := ?p + bytes\<rparr>],
                  files := (files s1)(?f \<mapsto>
                     (if fsize e1 < ?p + bytes then e1\<lparr>fsize := ?p + bytes\<rparr> else e1))\<rparr>))"
    proof (cases "?p + bytes > datasize e")
      case False
      show ?thesis
      proof (intro exI [of _ s] exI [of _ e] conjI refl)
        show "s' = s \<or>
              (\<exists>b. s' = s\<lparr>blocks := b,
                  fh := (fh s)[?fd := (fh s ! ?fd)\<lparr>ptr := ?p + bytes\<rparr>],
                  files := (files s)(?f \<mapsto>
                     (if fsize e < ?p + bytes then e\<lparr>fsize := ?p + bytes\<rparr> else e))\<rparr>)"
          using r True e w False
          by (cases "blocks s (data e)") (auto simp: ramdisk_write_def Let_def split: if_splits)
      qed
    next
      case g: True
      obtain rr s1 where rl: "realloc s (data e) (unat (?p + bytes + 4096)) = (rr, s1)"
        by (cases "realloc s (data e) (unat (?p + bytes + 4096))") auto
      note fr1 = realloc_frame [OF rl]
      show ?thesis
      proof (cases "\<exists>np. rr = Inr np \<and> np \<noteq> NULL")
        case False
        then have "s' = s1" using r True e w g rl
          by (cases rr) (auto simp: ramdisk_write_def Let_def split: if_splits)
        then show ?thesis using fr1 by (intro exI [of _ s1] exI [of _ e]) simp
      next
        case True
        then obtain np where np: "rr = Inr np" "np \<noteq> NULL" by blast
        let ?e1 = "e\<lparr>data := np, datasize := ?p + bytes + 4096\<rparr>"
        have "s' = s1 \<or>
              (\<exists>b. s' = s1\<lparr>blocks := b,
                  fh := (fh s1)[?fd := (fh s1 ! ?fd)\<lparr>ptr := ?p + bytes\<rparr>],
                  files := (files s1)(?f \<mapsto>
                     (if fsize ?e1 < ?p + bytes then ?e1\<lparr>fsize := ?p + bytes\<rparr> else ?e1))\<rparr>)"
          using r \<open>0 \<le> h \<and> nat h < length (fh s) \<and> hfile (fh s ! nat h) \<noteq> NULL \<and> dir (fh s ! nat h) = 0\<close>
            e w g rl np fr1
          by (cases "blocks s1 np") (auto simp: ramdisk_write_def Let_def split: if_splits)
        then show ?thesis using fr1 by (intro exI [of _ s1] exI [of _ ?e1]) simp
      qed
    qed
    then obtain s1 e1 where f1: "files s1 = files s" "fh s1 = fh s" "lists s1 = lists s"
        "root s1 = root s" "rootdir s1 = rootdir s"
      and e1: "name e1 = name e" "ftype e1 = ftype e" "dirlist e1 = dirlist e"
        "usage e1 = usage e" "openfor e1 = openfor e"
      and sh: "s' = s1 \<or>
              (\<exists>b. s' = s1\<lparr>blocks := b,
                  fh := (fh s1)[?fd := (fh s1 ! ?fd)\<lparr>ptr := ?p + bytes\<rparr>],
                  files := (files s1)(?f \<mapsto>
                     (if fsize e1 < ?p + bytes then e1\<lparr>fsize := ?p + bytes\<rparr> else e1))\<rparr>)"
      by blast
    from sh show ?thesis
    proof
      assume "s' = s1"
      then have "fs_inv s' = fs_inv s" using f1 by (intro fs_inv_cong) simp_all
      then show ?thesis using inv by simp
    next
      assume "\<exists>b. s' = s1\<lparr>blocks := b,
                  fh := (fh s1)[?fd := (fh s1 ! ?fd)\<lparr>ptr := ?p + bytes\<rparr>],
                  files := (files s1)(?f \<mapsto>
                     (if fsize e1 < ?p + bytes then e1\<lparr>fsize := ?p + bytes\<rparr> else e1))\<rparr>"
      then obtain b where s': "s' = s1\<lparr>blocks := b,
                  fh := (fh s1)[?fd := (fh s1 ! ?fd)\<lparr>ptr := ?p + bytes\<rparr>],
                  files := (files s1)(?f \<mapsto>
                     (if fsize e1 < ?p + bytes then e1\<lparr>fsize := ?p + bytes\<rparr> else e1))\<rparr>"
        by blast
      show ?thesis
        by (rule fs_inv_node_cursor [OF inv e fr, where fd = ?fd
              and e' = "if fsize e1 < ?p + bytes then e1\<lparr>fsize := ?p + bytes\<rparr> else e1"
              and h' = "(fh s ! ?fd)\<lparr>ptr := ?p + bytes\<rparr>"])
           (use True e1 f1 in \<open>simp_all add: s'\<close>)
    qed
  qed
qed

subsection \<open>Unlink keeps the invariant\<close>

lemma find_path_file_result:
  assumes t: "tree_inv s" and r: "ramdisk_find_path s (rootdir s) fn 0 = Inr f" and f: "f \<noteq> NULL"
  shows "leaf fn \<noteq> [] \<and> CHR ''/'' \<notin> set (leaf fn) \<and> f \<in> set (entries s)
     \<and> find_entries (files s) (entries s) (leaf fn) (length (leaf fn)) = Inr f
     \<and> (\<exists>e. files s f = Some e \<and> ftype e = STAT_TYPE_FILE \<and> dirlist e = rootdir s
            \<and> lname e = map tolower (leaf fn))"
proof -
  from r have a: "(let seg = leaf fn
      in if seg = [] \<or> CHR ''/'' \<in> set seg then Inr NULL
         else find_entries (files s) (entries s) seg (length seg)) = Inr f"
    by (simp add: ramdisk_find_path_def find_path_file [OF t] leaf_def)
  then have b: "leaf fn \<noteq> []" "CHR ''/'' \<notin> set (leaf fn)"
      and c: "find_entries (files s) (entries s) (leaf fn) (length (leaf fn)) = Inr f"
    using f by (auto simp: Let_def split: if_splits)
  from find_root_file [OF t c f] obtain e where e: "f \<in> set (entries s)" "files s f = Some e"
      "ftype e = STAT_TYPE_FILE" "strlen (name e) = length (leaf fn)"
      "strncasecmp (leaf fn) (name e) (length (leaf fn)) = 0"
    by blast
  have "lname e = map tolower (leaf fn)" using match_iff [of e "leaf fn"] e(4,5) by simp
  moreover have "dirlist e = rootdir s" using tree_entry [OF t e(1)] e(2) by auto
  ultimately show ?thesis using b c e by simp
qed

lemma find_path_no_fault:
  assumes t: "tree_inv s"
  shows "\<exists>f. ramdisk_find_path s (rootdir s) fn d = Inr f"
proof (cases "d = 0")
  case True
  then show ?thesis using find_root_total [OF t]
    by (simp add: ramdisk_find_path_def find_path_file [OF t] Let_def)
next
  case False
  then show ?thesis by (simp add: ramdisk_find_path_def find_path_dir [OF t False])
qed

lemma unlink_inv:
  assumes inv: "fs_inv s" and r: "ramdisk_unlink s fn = (r, s')" and nc: "\<not> crashed r"
  shows "fs_inv s'"
proof -
  note t = fs_inv_tree [OF inv]
  obtain f where f: "ramdisk_find_path s (rootdir s) fn 0 = Inr f"
    using find_path_no_fault [OF t] by blast
  show ?thesis
  proof (cases "f = NULL")
    case True
    then have "s' = s" using r f by (simp add: ramdisk_unlink_def)
    then show ?thesis using inv by simp
  next
    case False
    from find_path_file_result [OF t f False] obtain e where fe: "f \<in> set (entries s)"
      and e: "files s f = Some e" "dirlist e = rootdir s"
      by blast
    show ?thesis
    proof (cases "usage e = 0")
      case nz: False
      then have "s' = s" using r f False e by (simp add: ramdisk_unlink_def)
      then show ?thesis using inv by simp
    next
      case True
      have s': "s' = s\<lparr>blocks := (blocks s)(data e := None),
                 lists := (lists s)(rootdir s \<mapsto> remove1 f (entries s)),
                 files := (files s)(f := None)\<rparr>"
        using r f False e True fe tree_lists [OF t]
        by (simp add: ramdisk_unlink_def LIST_REMOVE_def free_def)
      have "tree_inv s'" by (rule tree_inv_remove [OF t fe]) (simp_all add: s')
      moreover have "handle_inv s'"
        by (rule handle_inv_remove [OF fs_inv_handle [OF inv] False e(1) True]) (simp_all add: s')
      ultimately show ?thesis by (simp add: fs_inv_def)
    qed
  qed
qed

subsection \<open>Creating a file\<close>

lemma strrchr_None: "strrchr fn c = None \<longleftrightarrow> c \<notin> set fn"
  by (simp add: strrchr_def)

lemma tree_inv_heap [simp]: "tree_inv (s\<lparr>heap := q\<rparr>) = tree_inv s"
  by (rule tree_inv_cong) simp_all

lemma unused_heap [simp]: "unused (s\<lparr>heap := q\<rparr>) a = unused s a"
  by (simp add: unused_def)

lemma unused_fh [simp]: "unused (s\<lparr>fh := x\<rparr>) a = unused s a"
  by (simp add: unused_def)

lemma unused_files_upd [simp]:
  "unused (s\<lparr>files := (files s)(f \<mapsto> x)\<rparr>) b = (unused s b \<and> b \<noteq> f)"
  by (auto simp: unused_def)

lemma next_alloc_cases:
  "next_alloc s = (a, s1) \<Longrightarrow>
   (s1 = s \<or> s1 = s\<lparr>heap := tl (heap s)\<rparr>)
   \<and> (a \<noteq> NULL \<longrightarrow> heap s \<noteq> [] \<and> a = hd (heap s) \<and> unused s a \<and> s1 = s\<lparr>heap := tl (heap s)\<rparr>)"
  by (auto simp: next_alloc_def split: list.splits if_splits)

text \<open>
  Where the root is the only directory, the parent of a path is found exactly when
  the path has no slash, and it is the root.
\<close>

lemma get_parent_root:
  assumes t: "tree_inv s" and r: "ramdisk_get_parent s (rootdir s) fn = (rr, s1)"
  shows "(CHR ''/'' \<notin> set fn \<and> rr = Inr (Some (rootdir s, fn)) \<and> s1 = s)
      \<or> (CHR ''/'' \<in> set fn \<and> (rr = Inr None \<or> rr = Inl Fault)
           \<and> (s1 = s \<or> s1 = s\<lparr>heap := tl (heap s)\<rparr>))"
proof (cases "CHR ''/'' \<in> set fn")
  case False
  then show ?thesis using r by (auto simp: ramdisk_get_parent_def strrchr_def)
next
  case True
  then obtain p where p: "strrchr fn CHR ''/'' = Some p" by (simp add: strrchr_def)
  obtain a s2 where na: "next_alloc s = (a, s2)" by (cases "next_alloc s") auto
  have s2: "s2 = s \<or> s2 = s\<lparr>heap := tl (heap s)\<rparr>" using next_alloc_cases [OF na] by simp
  then have t2: "tree_inv s2" and rd: "rootdir s2 = rootdir s" using t by auto
  have fp: "ramdisk_find_path s2 (rootdir s) (take p fn) 1 = Inr NULL"
    using find_path_dir [OF t2, of 1 NULL "take p fn"] rd by (simp add: ramdisk_find_path_def)
  show ?thesis
  proof (cases "a = NULL")
    case an: True
    then show ?thesis using r p na True s2 by (auto simp: ramdisk_get_parent_def)
  next
    case False
    then show ?thesis using r p na True s2 fp by (auto simp: ramdisk_get_parent_def)
  qed
qed

lemma create_file_shape:
  assumes t: "tree_inv s" and r: "ramdisk_create_file s (rootdir s) fn 0 = (rr, s')"
  shows "(rr = Inr NULL \<or> rr = Inl Fault)
          \<and> files s' = files s \<and> lists s' = lists s \<and> fh s' = fh s \<and> root s' = root s
          \<and> rootdir s' = rootdir s \<and> blocks s' = blocks s
      \<or> CHR ''/'' \<notin> set fn \<and> 3 \<le> length (heap s) \<and> rr = Inr (heap s ! 0)
          \<and> unused s (heap s ! 0) \<and> heap s ! 1 \<noteq> NULL \<and> unused s (heap s ! 2)
          \<and> heap s ! 2 \<noteq> heap s ! 0
          \<and> s' = s\<lparr>heap := drop 3 (heap s),
                  blocks := (blocks s)(heap s ! 2 \<mapsto> replicate 1024 0),
                  lists := (lists s)(rootdir s \<mapsto> heap s ! 0 # entries s),
                  files := (files s)(heap s ! 0 \<mapsto> new_file fn (heap s ! 2) (rootdir s))\<rparr>"
proof -
  obtain r0 s1 where gp: "ramdisk_get_parent s (rootdir s) fn = (r0, s1)"
    by (cases "ramdisk_get_parent s (rootdir s) fn") auto
  from get_parent_root [OF t gp] show ?thesis
  proof
    assume a: "CHR ''/'' \<in> set fn \<and> (r0 = Inr None \<or> r0 = Inl Fault)
           \<and> (s1 = s \<or> s1 = s\<lparr>heap := tl (heap s)\<rparr>)"
    then show ?thesis using r gp by (auto simp: ramdisk_create_file_def)
  next
    assume a: "CHR ''/'' \<notin> set fn \<and> r0 = Inr (Some (rootdir s, fn)) \<and> s1 = s"
    then have gp': "ramdisk_get_parent s (rootdir s) fn = (Inr (Some (rootdir s, fn)), s)"
      using gp by simp
    have ls: "lists s (rootdir s) = Some (entries s)" by (rule tree_lists [OF t])
    show ?thesis
    proof (cases "heap s")
      case Nil
      then show ?thesis using r gp' by (auto simp: ramdisk_create_file_def next_alloc_def)
    next
      case h1: (Cons f q1)
      show ?thesis
      proof (cases "unused s f")
        case False
        then show ?thesis using r gp' h1 by (auto simp: ramdisk_create_file_def next_alloc_def)
      next
        case uf: True
        then have ff: "files s f = None" "f \<noteq> NULL" by (simp_all add: unused_def)
        have rest0: "((files s)(f \<mapsto> blank_file))(f := None) = files s" using ff by auto
        show ?thesis
        proof (cases q1)
          case Nil
          then show ?thesis using r gp' h1 uf ff rest0
            by (auto simp: ramdisk_create_file_def next_alloc_def strdup_def)
        next
          case h2: (Cons a2 q2)
          show ?thesis
          proof (cases "a2 = NULL")
            case True
            then show ?thesis using r gp' h1 h2 uf ff rest0
              by (auto simp: ramdisk_create_file_def next_alloc_def strdup_def)
          next
            case a2: False
            show ?thesis
            proof (cases q2)
              case Nil
              then show ?thesis using r gp' h1 h2 uf ff a2 rest0
                by (auto simp: ramdisk_create_file_def next_alloc_def strdup_def malloc_def)
            next
              case h3: (Cons b q3)
              show ?thesis
              proof (cases "unused s b \<and> b \<noteq> f")
                case False
                have "ramdisk_create_file s (rootdir s) fn 0 = (Inr NULL, s\<lparr>heap := q3\<rparr>)"
                  using gp' h1 h2 h3 uf ff a2 rest0 False
                  by (auto simp: ramdisk_create_file_def next_alloc_def strdup_def malloc_def)
                then show ?thesis using r by auto
              next
                case True
                then have bn: "b \<noteq> NULL" by (auto simp: unused_def)
                have "ramdisk_create_file s (rootdir s) fn 0 =
                    (Inr f, s\<lparr>heap := q3,
                       blocks := (blocks s)(b \<mapsto> replicate 1024 0),
                       lists := (lists s)(rootdir s \<mapsto> f # entries s),
                       files := (files s)(f \<mapsto> new_file fn b (rootdir s))\<rparr>)"
                  using gp' h1 h2 h3 uf ff a2 True bn ls
                  by (simp add: ramdisk_create_file_def next_alloc_def strdup_def malloc_def
                        LIST_INSERT_HEAD_def new_file_def)
                then show ?thesis using r a h1 h2 h3 uf a2 True by auto
              qed
            qed
          qed
        qed
      qed
    qed
  qed
qed

subsection \<open>Open keeps the invariant\<close>

lemma open_finish_inv:
  assumes inv: "fs_inv s0"
    and sx: "files sx = files s0" "fh sx = fh s0" "lists sx = lists s0" "root sx = root s0"
      "rootdir sx = rootdir s0"
    and e0: "files s0 f = Some e0" and f: "f \<noteq> NULL"
    and fd: "fd < length (fh s0)" and free: "hfile (fh s0 ! fd) = NULL"
    and h: "hfile h = f" "dir h \<noteq> 0 \<longleftrightarrow> f = root s0"
    and same: "name e = name e0" "ftype e = ftype e0" "dirlist e = dirlist e0"
      "f = root s0 \<longrightarrow> data e = data e0" "usage e = usage e0"
    and lock: "(omode h AND O_MODE_MASK = O_RDONLY \<and> openfor e0 \<noteq> OPENFOR_WRITE
                 \<and> openfor e = OPENFOR_READ)
               \<or> (omode h AND O_MODE_MASK \<noteq> O_RDONLY \<and> openfor e0 = OPENFOR_NOTHING
                 \<and> openfor e = OPENFOR_WRITE)"
    and r: "open_finish sx f e fd h mode = (r, s')" and nc: "\<not> crashed r"
  shows "fs_inv s'"
proof -
  obtain p where s': "s' = sx\<lparr>files := (files sx)(f \<mapsto> e\<lparr>usage := usage e + 1\<rparr>),
      fh := (fh sx)[fd := h\<lparr>ptr := p\<rparr>]\<rparr>"
  proof (cases "if mode AND O_DIR \<noteq> 0 then LIST_FIRST sx (data e) else Inr (ptr h)")
    case (Inl er)
    then have "r = Inl er" using r by (simp add: open_finish_def)
    then show ?thesis using nc Inl r
      by (cases er) (auto simp: open_finish_def LIST_FIRST_def split: if_splits option.splits)
  next
    case (Inr p)
    then have "s' = sx\<lparr>files := (files sx)(f \<mapsto> e\<lparr>usage := usage e + 1\<rparr>),
      fh := (fh sx)[fd := h\<lparr>ptr := p\<rparr>]\<rparr>" using r by (simp add: open_finish_def)
    then show ?thesis by (rule that)
  qed
  let ?e' = "e\<lparr>usage := usage e + 1\<rparr>"
  let ?h' = "h\<lparr>ptr := p\<rparr>"
  have t: "tree_inv s'"
    by (rule tree_inv_node_update' [OF fs_inv_tree [OF inv] e0, where e' = ?e'])
       (use same sx in \<open>simp_all add: s'\<close>)
  have hi: "handle_inv s'"
    by (rule handle_inv_install [OF fs_inv_handle [OF inv] fd free f e0,
          where h' = ?h' and e' = ?e'])
       (use same sx h lock in \<open>simp_all add: s'\<close>)
  show ?thesis using t hi by (simp add: fs_inv_def)
qed

lemma malloc_frame:
  assumes "malloc s n = (a, s1)"
  shows "files s1 = files s \<and> fh s1 = fh s \<and> lists s1 = lists s \<and> root s1 = root s
         \<and> rootdir s1 = rootdir s"
  using assms
  by (auto simp: malloc_def next_alloc_def split: if_splits list.splits prod.splits)

lemma free_frame:
  "files (free s p) = files s \<and> fh (free s p) = fh s \<and> lists (free s p) = lists s
   \<and> root (free s p) = root s \<and> rootdir (free s p) = rootdir s"
  by (simp add: free_def)

lemma fs_inv_slot_clear:
  assumes inv: "fs_inv s" and fd: "fd < length (fh s)" and free: "hfile (fh s ! fd) = NULL"
    and h: "hfile h' = NULL"
  shows "fs_inv (s\<lparr>fh := (fh s)[fd := h']\<rparr>)"
proof -
  have "handle_inv (s\<lparr>fh := (fh s)[fd := h']\<rparr>)"
    by (rule handle_inv_slot_update [OF fs_inv_handle [OF inv] fd]) (simp_all add: free h)
  moreover have "tree_inv (s\<lparr>fh := (fh s)[fd := h']\<rparr>) = tree_inv s"
    by (rule tree_inv_cong) simp_all
  ultimately show ?thesis using fs_inv_tree [OF inv] by (simp add: fs_inv_def)
qed

lemma open_commit_inv:
  assumes inv: "fs_inv s" and e: "files s f = Some e" and f: "f \<noteq> NULL"
    and fd: "fd < length (fh s)" and free: "hfile (fh s ! fd) = NULL"
    and d: "mode AND O_DIR \<noteq> 0 \<longleftrightarrow> f = root s"
    and wr: "f = root s \<longrightarrow> mode AND O_MODE_MASK = O_RDONLY"
    and r: "open_commit s f fd mode = (r, s')" and nc: "\<not> crashed r"
  shows "fs_inv s'"
proof -
  define h where "h = (fh s ! fd)\<lparr>hfile := f, dir := mode AND O_DIR, omode := mode\<rparr>"
  have hh: "hfile (h\<lparr>ptr := p\<rparr>) = f" "dir (h\<lparr>ptr := p\<rparr>) \<noteq> 0 \<longleftrightarrow> f = root s"
      "omode (h\<lparr>ptr := p\<rparr>) = mode" for p
    using d by (simp_all add: h_def)
  have st: "openfor e = OPENFOR_NOTHING \<or> openfor e = OPENFOR_READ \<or> openfor e = OPENFOR_WRITE"
    using handle_invD2 [OF fs_inv_handle [OF inv] f e] by blast
  show ?thesis
  proof (cases "openfor e = OPENFOR_WRITE")
    case True
    then have "s' = s\<lparr>fh := (fh s)[fd := (fh s ! fd)\<lparr>hfile := NULL\<rparr>]\<rparr>"
      using r e by (simp add: open_commit_def)
    then show ?thesis using fs_inv_slot_clear [OF inv fd free] by simp
  next
    case nw: False
    show ?thesis
    proof (cases "mode AND O_MODE_MASK = O_RDONLY")
      case True
      then have r': "open_finish s f (e\<lparr>openfor := OPENFOR_READ\<rparr>) fd (h\<lparr>ptr := 0\<rparr>) mode = (r, s')"
        using r e nw by (simp add: open_commit_def Let_def h_def)
      show ?thesis
        by (rule open_finish_inv [OF inv _ _ _ _ _ e f fd free hh(1,2) _ _ _ _ _ _ r' nc])
           (use True nw hh(3) in simp_all)
    next
      case ro: False
      then have nroot: "f \<noteq> root s" using wr by simp
      show ?thesis
      proof (cases "(mode AND O_MODE_MASK) AND O_RDWR \<noteq> 0 \<or> (mode AND O_MODE_MASK) AND O_WRONLY \<noteq> 0")
        case False
        then have "r = Inl Abort" using r e nw ro by (simp add: open_commit_def Let_def)
        then show ?thesis using nc by (simp add: crashed_def)
      next
        case ww: True
        show ?thesis
        proof (cases "openfor e = OPENFOR_READ")
          case True
          then have "s' = s\<lparr>fh := (fh s)[fd := h\<lparr>hfile := NULL\<rparr>]\<rparr>"
            using r e nw ro ww by (simp add: open_commit_def Let_def h_def)
          then show ?thesis using fs_inv_slot_clear [OF inv fd free] by simp
        next
          case False
          then have no: "openfor e = OPENFOR_NOTHING" using st nw by blast
          have nr: "OPENFOR_NOTHING \<noteq> OPENFOR_READ" by (simp add: lock_defs)
          consider (app) "mode AND O_APPEND \<noteq> 0"
            | (trunc) "mode AND O_APPEND = 0" "mode AND O_TRUNC \<noteq> 0"
            | (plain) "mode AND O_APPEND = 0" "mode AND O_TRUNC = 0" by blast
          then show ?thesis
          proof cases
            case app
            then have r': "open_finish s f (e\<lparr>openfor := OPENFOR_WRITE\<rparr>) fd (h\<lparr>ptr := fsize e\<rparr>) mode
                = (r, s')"
              using r e nw ro ww no nr by (simp add: open_commit_def Let_def h_def)
            show ?thesis
              by (rule open_finish_inv [OF inv _ _ _ _ _ e f fd free hh(1,2) _ _ _ _ _ _ r' nc])
                 (use ro no hh(3) in simp_all)
          next
            case plain
            then have r': "open_finish s f (e\<lparr>openfor := OPENFOR_WRITE\<rparr>) fd (h\<lparr>ptr := 0\<rparr>) mode
                = (r, s')"
              using r e nw ro ww no nr by (simp add: open_commit_def Let_def h_def)
            show ?thesis
              by (rule open_finish_inv [OF inv _ _ _ _ _ e f fd free hh(1,2) _ _ _ _ _ _ r' nc])
                 (use ro no hh(3) in simp_all)
          next
            case trunc
            obtain blk sx where m: "malloc (free s (data e)) 1024 = (blk, sx)" by force
            have fr: "files sx = files s" "fh sx = fh s" "lists sx = lists s" "root sx = root s"
                "rootdir sx = rootdir s"
              using malloc_frame [OF m] free_frame [of s "data e"] by simp_all
            have r': "open_finish sx f
                (e\<lparr>openfor := OPENFOR_WRITE, data := blk, datasize := 1024, fsize := 0\<rparr>)
                fd (h\<lparr>ptr := 0\<rparr>) mode = (r, s')"
              using r e nw ro ww no nr trunc m by (simp add: open_commit_def Let_def h_def)
            show ?thesis
              by (rule open_finish_inv [OF inv fr e f fd free hh(1,2) _ _ _ _ _ _ r' nc])
                 (use ro no hh(3) nroot in simp_all)
          qed
        qed
      qed
    qed
  qed
qed

lemma open_lookup_inv:
  assumes inv: "fs_inv s" and r: "open_lookup s fn mode = (lr, s1)"
  shows "fs_inv s1 \<and> fh s1 = fh s \<and> root s1 = root s \<and> rootdir s1 = rootdir s
     \<and> (lr = Inl Fault
        \<or> (\<exists>f. lr = Inr f \<and> (f \<noteq> NULL \<longrightarrow> files s1 f \<noteq> None
              \<and> (f = root s1 \<longleftrightarrow> fn = [])
              \<and> (mode AND O_DIR \<noteq> 0 \<longrightarrow> f = root s1))))"
proof (cases "fn = []")
  case True
  then have "lr = Inr (root s)" "s1 = s" using r by (auto simp: open_lookup_def)
  then show ?thesis using inv True tree_root_node [OF fs_inv_tree [OF inv]] by auto
next
  case ne: False
  note t = fs_inv_tree [OF inv]
  obtain f0 where f0: "ramdisk_find_path s (rootdir s) fn (mode AND O_DIR) = Inr f0"
    using find_path_no_fault [OF t] by blast
  show ?thesis
  proof (cases "f0 = NULL")
    case False
    then have res: "lr = Inr f0" "s1 = s" using r ne f0 by (auto simp: open_lookup_def)
    have d0: "mode AND O_DIR = 0"
    proof (rule ccontr)
      assume "mode AND O_DIR \<noteq> 0"
      then have "f0 = NULL"
        using f0 find_path_dir [OF t, of "mode AND O_DIR" NULL fn]
        by (simp add: ramdisk_find_path_def split: if_splits)
      then show False using False by simp
    qed
    from find_path_file_result [OF t f0 [unfolded d0] False]
    have "f0 \<in> set (entries s)" "files s f0 \<noteq> None" by auto
    moreover have "f0 \<noteq> root s" using tree_distinct [OF t] calculation(1) by auto
    ultimately show ?thesis using res inv ne d0 by simp
  next
    case nf: True
    show ?thesis
    proof (cases "mode AND O_MODE_MASK \<noteq> O_RDONLY \<and> mode AND O_DIR = 0")
      case False
      then have "lr = Inr NULL" "s1 = s" using r ne f0 nf by (auto simp: open_lookup_def)
      then show ?thesis using inv by simp
    next
      case True
      then have d0: "mode AND O_DIR = 0" by simp
      have c: "ramdisk_create_file s (rootdir s) fn 0 = (lr, s1)"
        using r ne f0 nf True by (simp add: open_lookup_def)
      show ?thesis
      proof (rule disjE [OF create_file_shape [OF t c]])
        assume a: "(lr = Inr NULL \<or> lr = Inl Fault)
          \<and> files s1 = files s \<and> lists s1 = lists s \<and> fh s1 = fh s \<and> root s1 = root s
          \<and> rootdir s1 = rootdir s \<and> blocks s1 = blocks s"
        have "fs_inv s1 = fs_inv s" by (rule fs_inv_cong) (simp_all add: a)
        then show ?thesis using a inv by auto
      next
        assume a: "CHR ''/'' \<notin> set fn \<and> 3 \<le> length (heap s) \<and> lr = Inr (heap s ! 0)
          \<and> unused s (heap s ! 0) \<and> heap s ! 1 \<noteq> NULL \<and> unused s (heap s ! 2)
          \<and> heap s ! 2 \<noteq> heap s ! 0
          \<and> s1 = s\<lparr>heap := drop 3 (heap s),
                  blocks := (blocks s)(heap s ! 2 \<mapsto> replicate 1024 0),
                  lists := (lists s)(rootdir s \<mapsto> heap s ! 0 # entries s),
                  files := (files s)(heap s ! 0 \<mapsto> new_file fn (heap s ! 2) (rootdir s))\<rparr>"
        then have ns: "CHR ''/'' \<notin> set fn" and res: "lr = Inr (heap s ! 0)"
          and u: "unused s (heap s ! 0)"
          and s1: "s1 = s\<lparr>heap := drop 3 (heap s),
                  blocks := (blocks s)(heap s ! 2 \<mapsto> replicate 1024 0),
                  lists := (lists s)(rootdir s \<mapsto> heap s ! 0 # entries s),
                  files := (files s)(heap s ! 0 \<mapsto> new_file fn (heap s ! 2) (rootdir s))\<rparr>"
          by blast+
        let ?f = "heap s ! 0"
        let ?e = "new_file fn (heap s ! 2) (rootdir s)"
        have fnn: "?f \<noteq> NULL" "files s ?f = None" using u by (simp_all add: unused_def)
        have lf: "leaf fn = fn" using ns ne by (cases fn) (auto simp: leaf_def)
        have "find_path_from s (rootdir s) NULL fn 0
            = find_entries (files s) (entries s) fn (length fn)"
          using ns ne lf by (simp add: find_path_file [OF t] leaf_def [symmetric])
        moreover have "find_path_from s (rootdir s) NULL fn 0 = Inr NULL"
          using f0 nf d0 by (simp add: ramdisk_find_path_def)
        ultimately have fe: "find_entries (files s) (entries s) fn (length fn) = Inr NULL"
          by simp
        have nm: "\<forall>c\<in>set (entries s). \<forall>x. files s c = Some x \<longrightarrow> lname x \<noteq> lname ?e"
        proof (intro ballI allI impI)
          fix c x assume c: "c \<in> set (entries s)" and x: "files s c = Some x"
          have "\<not> (strlen (name x) = length fn \<and> strncasecmp fn (name x) (length fn) = 0)"
            using find_entries_none [OF fe _ c x] tree_root [OF t] by simp
          then show "lname x \<noteq> lname ?e"
            using match_iff [of x fn] by (simp add: lname_def new_file_def)
        qed
        have ti: "tree_inv s1"
          by (rule tree_inv_create [OF t fnn nm, where s' = s1])
             (simp_all add: s1 new_file_def)
        have hi: "handle_inv s1"
          by (rule handle_inv_create [OF fs_inv_handle [OF inv] fnn, where e' = ?e and s' = s1])
             (simp_all add: s1 new_file_def)
        have nr: "?f \<noteq> root s" using fnn tree_root_node [OF t] by auto
        show ?thesis using ti hi res fnn nr ne d0 by (simp add: fs_inv_def s1)
      qed
    qed
  qed
qed

lemma open_inv:
  assumes inv: "fs_inv s" and r: "ramdisk_open s path mode = (r, s')" and nc: "\<not> crashed r"
  shows "fs_inv s'"
proof (cases "mode AND O_DIR \<noteq> 0 \<and> mode AND O_MODE_MASK \<noteq> O_RDONLY")
  case True
  then have "s' = s" using r by (auto simp: ramdisk_open_def Let_def)
  then show ?thesis using inv by simp
next
  case ok: False
  define fn where "fn = (if path \<noteq> [] \<and> hd path = CHR ''/'' then tl path else path)"
  have rn: "root s \<noteq> NULL" using tree_root [OF fs_inv_tree [OF inv]] by simp
  obtain lr s1 where l: "open_lookup s fn mode = (lr, s1)" by force
  note li = open_lookup_inv [OF inv l]
  have inv1: "fs_inv s1" using li by simp
  have r1: "(case lr of Inl e \<Rightarrow> (Inl e, s1)
     | Inr f \<Rightarrow>
         if f = NULL then (Inl Failed, s1)
         else
           (case files s1 f of
              None \<Rightarrow> (Inl Fault, s1)
            | Some e \<Rightarrow>
                if ftype e = STAT_TYPE_DIR
                   \<and> (mode AND O_DIR = 0 \<or> mode AND O_MODE_MASK \<noteq> O_RDONLY)
                then (Inl Failed, s1)
                else
                  (let fd = scan_fd (fh s1) 1
                   in if fd \<ge> length (fh s1) then (Inl Failed, s1)
                      else open_commit s1 f fd mode))) = (r, s')"
    using r ok rn l by (simp add: ramdisk_open_def Let_def fn_def [symmetric])
  show ?thesis
  proof (cases lr)
    case (Inl er)
    then show ?thesis using r1 inv1 by auto
  next
    case (Inr f)
    show ?thesis
    proof (cases "f = NULL")
      case True
      then show ?thesis using r1 Inr inv1 by auto
    next
      case fnn: False
      then obtain e where e: "files s1 f = Some e"
          and rt: "f = root s1 \<longleftrightarrow> fn = []" and dr: "mode AND O_DIR \<noteq> 0 \<longrightarrow> f = root s1"
        using li Inr by auto
      show ?thesis
      proof (cases "ftype e = STAT_TYPE_DIR
                   \<and> (mode AND O_DIR = 0 \<or> mode AND O_MODE_MASK \<noteq> O_RDONLY)")
        case True
        then show ?thesis using r1 Inr fnn e inv1 by auto
      next
        case ty: False
        show ?thesis
        proof (cases "scan_fd (fh s1) 1 \<ge> length (fh s1)")
          case True
          then show ?thesis using r1 Inr fnn e ty inv1 by (auto simp: Let_def)
        next
          case False
          then have fd: "scan_fd (fh s1) 1 < length (fh s1)" by simp
          have c: "open_commit s1 f (scan_fd (fh s1) 1) mode = (r, s')"
            using r1 Inr fnn e ty False by (simp add: Let_def)
          have rd: "f = root s1 \<longrightarrow> ftype e = STAT_TYPE_DIR"
            using tree_root_node [OF fs_inv_tree [OF inv1]] e by auto
          show ?thesis
            by (rule open_commit_inv [OF inv1 e fnn fd scan_fd_free [OF fd] _ _ c nc])
               (use rd ty dr in auto)
        qed
      qed
    qed
  qed
qed

subsection \<open>What a successful open returns\<close>

lemma open_finish_result:
  assumes "open_finish s f e fd h mode = (Inr r, s')" and "fd < length (fh s)"
  shows "r = int fd \<and> length (fh s') = length (fh s) \<and> hfile (fh s' ! fd) = hfile h
     \<and> dir (fh s' ! fd) = dir h \<and> omode (fh s' ! fd) = omode h
     \<and> (mode AND O_DIR = 0 \<longrightarrow> ptr (fh s' ! fd) = ptr h)
     \<and> files s' = (files s)(f \<mapsto> e\<lparr>usage := usage e + 1\<rparr>)
     \<and> lists s' = lists s \<and> root s' = root s \<and> rootdir s' = rootdir s \<and> blocks s' = blocks s
     \<and> (\<forall>i. i \<noteq> fd \<longrightarrow> fh s' ! i = fh s ! i)"
  using assms by (auto simp: open_finish_def split: sum.splits if_splits)

lemma open_commit_result:
  assumes r: "open_commit s f fd mode = (Inr r, s')" and fd: "fd < length (fh s)"
  shows "r = int fd \<and> length (fh s') = length (fh s) \<and> hfile (fh s' ! fd) = f
     \<and> dir (fh s' ! fd) = mode AND O_DIR \<and> omode (fh s' ! fd) = mode
     \<and> lists s' = lists s \<and> root s' = root s \<and> rootdir s' = rootdir s
     \<and> (\<forall>i. i \<noteq> fd \<longrightarrow> fh s' ! i = fh s ! i)"
proof -
  obtain e where e: "files s f = Some e" using r by (auto simp: open_commit_def split: option.splits)
  define h where "h = (fh s ! fd)\<lparr>hfile := f, dir := mode AND O_DIR, omode := mode\<rparr>"
  have "\<exists>sx e' p. open_finish sx f e' fd (h\<lparr>ptr := p\<rparr>) mode = (Inr r, s')
      \<and> fh sx = fh s \<and> lists sx = lists s \<and> root sx = root s \<and> rootdir sx = rootdir s"
  proof (cases "mode AND O_MODE_MASK = O_RDONLY")
    case True
    then show ?thesis using r e
      by (auto simp: open_commit_def Let_def h_def split: if_splits)
  next
    case False
    show ?thesis
    proof (cases "mode AND O_APPEND = 0 \<and> mode AND O_TRUNC \<noteq> 0")
      case False
      then show ?thesis using r e \<open>mode AND O_MODE_MASK \<noteq> O_RDONLY\<close>
        by (auto simp: open_commit_def Let_def h_def split: if_splits)
    next
      case True
      obtain blk sx where m: "malloc (free s (data e)) 1024 = (blk, sx)" by force
      have fr: "fh sx = fh s" "lists sx = lists s" "root sx = root s" "rootdir sx = rootdir s"
        using malloc_frame [OF m] free_frame [of s "data e"] by simp_all
      have "open_finish sx f
                (e\<lparr>openfor := OPENFOR_WRITE, data := blk, datasize := 1024, fsize := 0\<rparr>)
                fd (h\<lparr>ptr := 0\<rparr>) mode = (Inr r, s')"
        using r e True m \<open>mode AND O_MODE_MASK \<noteq> O_RDONLY\<close>
        by (auto simp: open_commit_def Let_def h_def split: if_splits)
      then show ?thesis using fr by blast
    qed
  qed
  then obtain sx e' p where o: "open_finish sx f e' fd (h\<lparr>ptr := p\<rparr>) mode = (Inr r, s')"
    and fr: "fh sx = fh s" "lists sx = lists s" "root sx = root s" "rootdir sx = rootdir s"
    by blast
  have "fd < length (fh sx)" using fd fr by simp
  from open_finish_result [OF o this] show ?thesis using fr by (simp add: h_def)
qed

lemma open_result:
  assumes inv: "fs_inv s" and r: "ramdisk_open s path mode = (Inr fd, s')"
  shows "0 \<le> fd \<and> nat fd < length (fh s') \<and> hfile (fh s' ! nat fd) \<noteq> NULL
     \<and> dir (fh s' ! nat fd) = mode AND O_DIR \<and> omode (fh s' ! nat fd) = mode
     \<and> nat fd = scan_fd (fh s) 1 \<and> length (fh s') = length (fh s)
     \<and> (\<forall>i. i \<noteq> nat fd \<longrightarrow> fh s' ! i = fh s ! i)"
proof -
  define fn where "fn = (if path \<noteq> [] \<and> hd path = CHR ''/'' then tl path else path)"
  obtain lr s1 where l: "open_lookup s fn mode = (lr, s1)" by force
  note li = open_lookup_inv [OF inv l]
  have fh1: "fh s1 = fh s" using li by simp
  have "\<exists>f. f \<noteq> NULL \<and> scan_fd (fh s1) 1 < length (fh s1)
      \<and> open_commit s1 f (scan_fd (fh s1) 1) mode = (Inr fd, s')"
    using r l
    by (auto simp: ramdisk_open_def Let_def fn_def [symmetric]
          split: if_splits sum.splits option.splits)
  then obtain f where f: "f \<noteq> NULL" and k: "scan_fd (fh s1) 1 < length (fh s1)"
    and c: "open_commit s1 f (scan_fd (fh s1) 1) mode = (Inr fd, s')" by blast
  from open_commit_result [OF c k] show ?thesis using f k fh1 by simp
qed

subsection \<open>Attach and detach keep the invariant\<close>

lemma fs_inv_node_data:
  assumes inv: "fs_inv s" and e: "files s f = Some e" and nr: "f \<noteq> root s"
    and same: "name e' = name e" "ftype e' = ftype e" "dirlist e' = dirlist e"
      "usage e' = usage e" "openfor e' = openfor e"
    and s': "files s' = (files s)(f \<mapsto> e')" "lists s' = lists s" "root s' = root s"
      "rootdir s' = rootdir s" "fh s' = fh s"
  shows "fs_inv s'"
proof -
  have "tree_inv s'"
    by (rule tree_inv_node_update' [OF fs_inv_tree [OF inv] e, where e' = e'])
       (use same nr s' in simp_all)
  moreover have "handle_inv s'"
    by (rule handle_inv_node_update [OF fs_inv_handle [OF inv] e, where e' = e'])
       (use same s' in simp_all)
  ultimately show ?thesis by (simp add: fs_inv_def)
qed

lemma attach_inv:
  assumes inv: "fs_inv s" and r: "fs_ramdisk_attach s fn obj sz = (r, s')" and nc: "\<not> crashed r"
  shows "fs_inv s'"
proof -
  obtain ro s1 where o: "ramdisk_open s fn (O_WRONLY OR O_TRUNC) = (ro, s1)" by force
  show ?thesis
  proof (cases ro)
    case (Inl er)
    then have "r = ro" "s' = s1" using r o by (auto simp: fs_ramdisk_attach_def)
    then show ?thesis using open_inv [OF inv o] nc by blast
  next
    case (Inr fd)
    have inv1: "fs_inv s1" using open_inv [OF inv o] Inr by simp
    note res = open_result [OF inv o [unfolded Inr]]
    define f where "f = hfile (fh s1 ! nat fd)"
    have fnn: "f \<noteq> NULL" and fd: "nat fd < length (fh s1)" unfolding f_def using res by blast+
    have "dir (fh s1 ! nat fd) = (O_WRONLY OR O_TRUNC) AND O_DIR" using res by blast
    then have d0: "dir (fh s1 ! nat fd) = 0" by (simp add: flag_defs)
    have nr: "f \<noteq> root s1" using file_handle_not_root [OF inv1 fd] fnn d0 by (simp add: f_def)
    obtain e where e: "files s1 f = Some e"
      using handle_invD1 [OF fs_inv_handle [OF inv1], of "fh s1 ! nat fd"] fd fnn
      by (auto simp: f_def)
    define s3 where "s3 = (free s1 (data e))\<lparr>files := (files (free s1 (data e)))(f \<mapsto>
        e\<lparr>data := obj, datasize := sz, fsize := sz\<rparr>)\<rparr>"
    have inv3: "fs_inv s3"
      by (rule fs_inv_node_data [OF inv1 e nr, where e' = "e\<lparr>data := obj, datasize := sz, fsize := sz\<rparr>"])
         (simp_all add: s3_def free_def)
    obtain rc s4 where c: "ramdisk_close s3 fd = (rc, s4)" by force
    have "s' = s4 \<and> (crashed rc \<longrightarrow> crashed r)"
      using r o Inr e c
      by (auto simp: fs_ramdisk_attach_def Let_def f_def [symmetric] s3_def [symmetric]
            crashed_def split: sum.splits if_splits)
    then show ?thesis using close_inv [OF inv3 c] nc by auto
  qed
qed

lemma detach_inv:
  assumes inv: "fs_inv s" and r: "fs_ramdisk_detach s fn = (r, s')" and nc: "\<not> crashed r"
  shows "fs_inv s'"
proof -
  obtain ro s1 where o: "ramdisk_open s fn O_RDONLY = (ro, s1)" by force
  show ?thesis
  proof (cases ro)
    case (Inl er)
    then have "r = Inl er" "s' = s1" using r o by (auto simp: fs_ramdisk_detach_def)
    then show ?thesis using open_inv [OF inv o] nc Inl by (simp add: crashed_def)
  next
    case (Inr fd)
    have inv1: "fs_inv s1" using open_inv [OF inv o] Inr by simp
    note res = open_result [OF inv o [unfolded Inr]]
    define f where "f = hfile (fh s1 ! nat fd)"
    have fnn: "f \<noteq> NULL" and fd: "nat fd < length (fh s1)" unfolding f_def using res by blast+
    have "dir (fh s1 ! nat fd) = O_RDONLY AND O_DIR" using res by blast
    then have d0: "dir (fh s1 ! nat fd) = 0" by (simp add: flag_defs)
    have nr: "f \<noteq> root s1" using file_handle_not_root [OF inv1 fd] fnn d0 by (simp add: f_def)
    obtain e where e: "files s1 f = Some e"
      using handle_invD1 [OF fs_inv_handle [OF inv1], of "fh s1 ! nat fd"] fd fnn
      by (auto simp: f_def)
    obtain blk s2 where m: "malloc s1 64 = (blk, s2)" by force
    note fr = malloc_frame [OF m]
    define s3 where "s3 = s2\<lparr>files := (files s2)(f \<mapsto> e\<lparr>data := blk, datasize := 64, fsize := 64\<rparr>)\<rparr>"
    have inv3: "fs_inv s3"
      by (rule fs_inv_node_data [OF inv1 e nr, where e' = "e\<lparr>data := blk, datasize := 64, fsize := 64\<rparr>"])
         (simp_all add: s3_def fr)
    obtain rc s4 where c: "ramdisk_close s3 fd = (rc, s4)" by force
    show ?thesis
    proof (cases rc)
      case (Inl er)
      then have "r = Inl er" "s' = s4"
        using r o Inr e c m
        by (auto simp: fs_ramdisk_detach_def Let_def f_def [symmetric] s3_def [symmetric])
      then show ?thesis using close_inv [OF inv3 c] nc Inl by (simp add: crashed_def)
    next
      case rcr: (Inr x)
      have inv4: "fs_inv s4" using close_inv [OF inv3 c] rcr by simp
      obtain ru s5 where u: "ramdisk_unlink s4 fn = (ru, s5)" by force
      have "s' = s5 \<and> (crashed ru \<longrightarrow> crashed r)"
        using r o Inr e c m rcr u
        by (auto simp: fs_ramdisk_detach_def Let_def f_def [symmetric] s3_def [symmetric]
              crashed_def split: sum.splits if_splits)
      then show ?thesis using unlink_inv [OF inv4 u] nc by auto
    qed
  qed
qed

subsection \<open>Every reachable state has the invariant\<close>

lemma refs_replicate: "a \<noteq> NULL \<Longrightarrow> refs (s\<lparr>fh := replicate n zero_handle\<rparr>) a = 0"
  by (simp add: refs_def zero_handle_def)

lemma init_inv:
  assumes ok: "files (fs_ramdisk_init (boot n plan)) (root (fs_ramdisk_init (boot n plan))) \<noteq> None"
  shows "fs_inv (fs_ramdisk_init (boot n plan))"
proof -
  let ?s = "fs_ramdisk_init (boot n plan)"
  have "\<exists>rd r nm q. rd \<noteq> NULL \<and> r \<noteq> NULL \<and> rd \<noteq> r \<and>
     ?s = \<lparr>files = [r \<mapsto> \<lparr>name = nm, fsize = 0, ftype = STAT_TYPE_DIR,
                                   openfor = OPENFOR_NOTHING, usage = 0, data = rd, datasize = 0,
                                   dirlist = NULL\<rparr>],
           lists = [rd \<mapsto> []], blocks = Map.empty, fh = replicate n zero_handle,
           root = r, rootdir = rd, heap = q\<rparr>"
    using ok
    by (auto simp: fs_ramdisk_init_def boot_def next_alloc_def strdup_def unused_def
          split: list.splits if_splits prod.splits option.splits)
  then obtain rd r nm q where n: "rd \<noteq> NULL" "r \<noteq> NULL"
    and s: "?s = \<lparr>files = [r \<mapsto> \<lparr>name = nm, fsize = 0, ftype = STAT_TYPE_DIR,
                                   openfor = OPENFOR_NOTHING, usage = 0, data = rd, datasize = 0,
                                   dirlist = NULL\<rparr>],
           lists = [rd \<mapsto> []], blocks = Map.empty, fh = replicate n zero_handle,
           root = r, rootdir = rd, heap = q\<rparr>"
    by blast
  have t: "tree_inv ?s" unfolding s using n by (simp add: tree_inv_def entries_def)
  have h: "handle_inv ?s" unfolding s using n
    by (simp add: handle_inv_def refs_def zero_handle_def)
  show ?thesis using t h by (simp add: fs_inv_def)
qed

lemma init_again: "fs_inv s \<Longrightarrow> fs_ramdisk_init s = s"
  using tree_root [of s] by (simp add: fs_ramdisk_init_def fs_inv_def)

lemma run_call_inv:
  assumes inv: "fs_inv s" and r: "run_call s c = (False, s')"
  shows "fs_inv s'"
proof (cases c)
  case (Call_open fn mode)
  then show ?thesis using r open_inv [OF inv, of fn mode] by (auto split: prod.splits)
next
  case (Call_close h)
  then show ?thesis using r close_inv [OF inv, of h] by (auto split: prod.splits)
next
  case (Call_read h bytes)
  then show ?thesis using r read_inv [OF inv, of h bytes] by (auto split: prod.splits)
next
  case (Call_write h buf bytes)
  then show ?thesis using r write_inv [OF inv, of h buf bytes] by (auto split: prod.splits)
next
  case (Call_seek h offset whence)
  then show ?thesis using r seek_inv [OF inv, of h offset whence] by (auto split: prod.splits)
next
  case (Call_readdir h)
  then show ?thesis using r readdir_inv [OF inv, of h] by (auto split: prod.splits)
next
  case (Call_rewinddir h)
  then show ?thesis using r rewinddir_inv [OF inv, of h] by (auto split: prod.splits)
next
  case (Call_unlink fn)
  then show ?thesis using r unlink_inv [OF inv, of fn] by (auto split: prod.splits)
next
  case (Call_attach fn obj sz)
  then show ?thesis using r attach_inv [OF inv, of fn obj sz] by (auto split: prod.splits)
next
  case (Call_detach fn)
  then show ?thesis using r detach_inv [OF inv, of fn] by (auto split: prod.splits)
next
  case Call_init
  then show ?thesis using r init_again [OF inv] inv by auto
qed

lemma reachable_inv: "reachable s \<Longrightarrow> fs_inv s"
proof (induction rule: reachable.induct)
  case (reach_init n plan)
  then show ?case by (rule init_inv)
next
  case (reach_call s c s')
  then show ?case using run_call_inv by blast
next
  case (reach_heap s plan)
  have "fs_inv (s\<lparr>heap := plan\<rparr>) = fs_inv s" by (rule fs_inv_cong) simp_all
  then show ?case using reach_heap by simp
next
  case (reach_block s a bs)
  have "fs_inv (s\<lparr>blocks := (blocks s)(a \<mapsto> bs)\<rparr>) = fs_inv s" by (rule fs_inv_cong) simp_all
  then show ?case using reach_block by simp
qed

section \<open>Exclusive writers\<close>

lemma refs_split: "refs s a = int (length (readers s a) + length (writers s a))"
proof -
  have "length (filter (\<lambda>h. omode h AND O_MODE_MASK = O_RDONLY) (filter (\<lambda>h. hfile h = a) (fh s)))
      + length (filter (\<lambda>h. \<not> omode h AND O_MODE_MASK = O_RDONLY) (filter (\<lambda>h. hfile h = a) (fh s)))
      = length (filter (\<lambda>h. hfile h = a) (fh s))"
    by (rule sum_length_filter_compl)
  then show ?thesis by (simp add: refs_def readers_def writers_def conj_commute)
qed

lemma handles_unallocated:
  assumes hi: "handle_inv s" and a: "a \<noteq> NULL" and n: "files s a = None"
  shows "readers s a = [] \<and> writers s a = []"
proof -
  have "hfile h \<noteq> a" if "h \<in> set (fh s)" for h
    using handle_invD1 [OF hi that] a n by auto
  then show ?thesis by (simp add: readers_def writers_def filter_empty_conv)
qed

lemma handles_locked:
  assumes hi: "handle_inv s" and a: "a \<noteq> NULL" and e: "files s a = Some e"
  shows "(openfor e = OPENFOR_WRITE \<longleftrightarrow> writers s a \<noteq> [])
     \<and> (openfor e = OPENFOR_READ \<longleftrightarrow> readers s a \<noteq> [])
     \<and> length (writers s a) \<le> 1 \<and> (writers s a \<noteq> [] \<longrightarrow> readers s a = [])"
proof -
  note st = handle_invD2 [OF hi a e]
  have d3: "\<And>h. h \<in> set (fh s) \<Longrightarrow> hfile h = a \<Longrightarrow>
      (omode h AND O_MODE_MASK = O_RDONLY \<longleftrightarrow> openfor e = OPENFOR_READ)"
    by (rule handle_invD3 [OF hi a e])
  have rd: "openfor e = OPENFOR_READ \<Longrightarrow> writers s a = []"
    using d3 by (auto simp: writers_def filter_empty_conv)
  have wr: "openfor e \<noteq> OPENFOR_READ \<Longrightarrow> readers s a = []"
    using d3 by (auto simp: readers_def filter_empty_conv)
  have ds: "OPENFOR_NOTHING \<noteq> OPENFOR_READ" "OPENFOR_NOTHING \<noteq> OPENFOR_WRITE"
    "OPENFOR_READ \<noteq> OPENFOR_WRITE" by (simp_all add: lock_defs)
  have n: "length (readers s a) + length (writers s a) = nat (refs s a)"
    using refs_split [of s a] by simp
  from st have "openfor e = OPENFOR_NOTHING \<and> refs s a = 0
                \<or> openfor e = OPENFOR_READ \<and> 0 < refs s a
                \<or> openfor e = OPENFOR_WRITE \<and> refs s a = 1" by simp
  then show ?thesis
  proof (elim disjE conjE)
    assume "openfor e = OPENFOR_NOTHING" "refs s a = 0"
    then show ?thesis using n ds by simp
  next
    assume "openfor e = OPENFOR_READ" "0 < refs s a"
    then show ?thesis using n rd ds by auto
  next
    assume "openfor e = OPENFOR_WRITE" "refs s a = 1"
    then show ?thesis using n wr ds by auto
  qed
qed

lemma table8: "(replicate 8 x)[Suc 0 := y] = [x, y, x, x, x, x, x, x]"
  by (simp add: eval_nat_numeral)

lemma reachable_blob_fs: "reachable blob_fs"
proof -
  have "reachable (fresh_fs\<lparr>heap := [0x3000, 0x3100, 0x4000, 0x5000]\<rparr>)"
    by (rule reach_heap [OF reachable_fresh_fs])
  then have "reachable (fresh_fs\<lparr>heap := [0x3000, 0x3100, 0x4000, 0x5000]\<rparr>
      \<lparr>blocks := (blocks (fresh_fs\<lparr>heap := [0x3000, 0x3100, 0x4000, 0x5000]\<rparr>))
         (0x6000 \<mapsto> [0xAA, 0xBB, 0xCC])\<rparr>)"
    by (rule reach_block) (simp add: fresh_fs_eq unused_def NULL_def)
  then have r: "reachable (fresh_fs\<lparr>heap := [0x3000, 0x3100, 0x4000, 0x5000],
        blocks := [0x6000 \<mapsto> [0xAA, 0xBB, 0xCC]]\<rparr>)"
    by (simp add: fresh_fs_eq)
  show ?thesis
    by (rule reach_call [OF r, where c = "Call_attach ''blob'' 0x6000 3"])
       (simp add: blob_fs_def [symmetric] blob_fs_eq,
        simp add: fresh_fs_eq fs_ramdisk_attach_def eval_defs crashed_def)
qed

lemma reachable_writer_fs: "reachable writer_fs"
  by (rule reach_call [OF reachable_blob_fs, where c = "Call_open ''blob'' O_WRONLY"])
     (simp add: writer_fs_def blob_fs_eq eval_defs crashed_def)

lemma reachable_reader_fs: "reachable reader_fs"
  by (rule reach_call [OF reachable_blob_fs, where c = "Call_open ''blob'' O_RDONLY"])
     (simp add: reader_fs_def blob_fs_eq eval_defs crashed_def)

text \<open>
  C1. In every state reachable from a freshly initialised file system, a node has at
  most one handle that is open for writing, and no handle open for reading while it
  has one for writing. The node's lock says which: it is \<open>WRITE\<close> exactly when there is a
  writer and \<open>READ\<close> exactly when there are readers. An open of a path that resolves to
  the node fails when the lock is \<open>WRITE\<close>, and an open in a writable mode fails when the
  lock is \<open>READ\<close> or \<open>WRITE\<close>.
\<close>

theorem exclusive_writer:
  assumes "reachable s" and "a \<noteq> NULL"
  shows "length (writers s a) \<le> 1 \<and> (writers s a \<noteq> [] \<longrightarrow> readers s a = [])
     \<and> (\<forall>e. files s a = Some e \<longrightarrow>
           (openfor e = OPENFOR_WRITE \<longleftrightarrow> writers s a \<noteq> [])
           \<and> (openfor e = OPENFOR_READ \<longleftrightarrow> readers s a \<noteq> [])
           \<and> (\<forall>path mode. resolves s path mode a
                 \<and> (openfor e = OPENFOR_WRITE \<or> openfor e = OPENFOR_READ \<and> wants_write mode)
                 \<longrightarrow> fst (ramdisk_open s path mode) = Inl Failed))"
proof -
  have inv: "fs_inv s" by (rule reachable_inv [OF assms(1)])
  note hi = fs_inv_handle [OF inv]
  have rn: "root s \<noteq> NULL" using tree_root [OF fs_inv_tree [OF inv]] by simp
  show ?thesis
  proof (cases "files s a")
    case None
    then show ?thesis using handles_unallocated [OF hi assms(2)] by simp
  next
    case (Some e)
    have gate: "fst (ramdisk_open s path mode) = Inl Failed"
      if "resolves s path mode a"
        "openfor e = OPENFOR_WRITE \<or> openfor e = OPENFOR_READ \<and> wants_write mode"
      for path mode
      using open_locked [OF that(1) rn Some that(2)] by auto
    show ?thesis using handles_locked [OF hi assms(2) Some] Some gate by simp
  qed
qed

theorem exclusive_writer_witness:
  "reachable writer_fs \<and> (0x3000 :: addr) \<noteq> NULL
   \<and> length (writers writer_fs 0x3000) = 1 \<and> readers writer_fs 0x3000 = []
   \<and> map_option openfor (files writer_fs 0x3000) = Some OPENFOR_WRITE
   \<and> resolves writer_fs ''blob'' O_RDONLY 0x3000
   \<and> fst (ramdisk_open writer_fs ''blob'' O_RDONLY) = Inl Failed
   \<and> resolves writer_fs ''/blob'' O_RDWR 0x3000
   \<and> fst (ramdisk_open writer_fs ''/blob'' O_RDWR) = Inl Failed"
proof -
  have a: "(0x3000 :: addr) \<noteq> NULL" by (simp add: NULL_def)
  have w: "length (writers writer_fs 0x3000) = 1" "readers writer_fs 0x3000 = []"
    by (simp_all add: writers_def readers_def writer_fs_eq table8 zero_handle_def flag_defs
          NULL_def)
  have e: "files writer_fs 0x3000 = Some \<lparr>name = ''blob'', fsize = 3, ftype = 1, openfor = 2,
      usage = 1, data = 0x6000, datasize = 3, dirlist = 0x1000\<rparr>"
    by (simp add: writer_fs_eq)
  have r: "resolves writer_fs ''blob'' O_RDONLY 0x3000" "resolves writer_fs ''/blob'' O_RDWR 0x3000"
    by (simp_all add: resolves_def strip_slash_def writer_fs_eq eval_defs)
  note t = exclusive_writer [OF reachable_writer_fs a]
  have g: "fst (ramdisk_open writer_fs ''blob'' O_RDONLY) = Inl Failed"
    "fst (ramdisk_open writer_fs ''/blob'' O_RDWR) = Inl Failed"
    using t e r by (simp_all add: lock_defs)
  show ?thesis using reachable_writer_fs a w e r g by (simp add: lock_defs)
qed

section \<open>Sizes and cursors\<close>

lemma big_fs_eq:
  "big_fs =
     \<lparr>files = [0x2000 \<mapsto> \<lparr>name = ''/'', fsize = 0, ftype = 2, openfor = 0, usage = 0,
                  data = 0x1000, datasize = 0, dirlist = 0\<rparr>,
               0x3000 \<mapsto> \<lparr>name = ''x'', fsize = 100, ftype = 1, openfor = 0, usage = 0,
                  data = 0x6000, datasize = 100, dirlist = 0x1000\<rparr>],
      lists = [0x1000 \<mapsto> [0x3000]], blocks = [0x6000 \<mapsto> replicate 100 0x55],
      fh = (replicate 8 zero_handle)[1 := zero_handle\<lparr>omode := 0x401\<rparr>],
      root = 0x2000, rootdir = 0x1000, heap = []\<rparr>"
  by (simp add: big_fs_def fresh_fs_eq fs_ramdisk_attach_def eval_defs)

lemma at_end_fs_eq:
  "at_end_fs =
     \<lparr>files = [0x2000 \<mapsto> \<lparr>name = ''/'', fsize = 0, ftype = 2, openfor = 0, usage = 0,
                  data = 0x1000, datasize = 0, dirlist = 0\<rparr>,
               0x3000 \<mapsto> \<lparr>name = ''x'', fsize = 100, ftype = 1, openfor = 1, usage = 1,
                  data = 0x6000, datasize = 100, dirlist = 0x1000\<rparr>],
      lists = [0x1000 \<mapsto> [0x3000]], blocks = [0x6000 \<mapsto> replicate 100 0x55],
      fh = (replicate 8 zero_handle)[1 := zero_handle\<lparr>hfile := 0x3000, ptr := 100\<rparr>],
      root = 0x2000, rootdir = 0x1000, heap = [0x7000]\<rparr>"
  by (simp add: at_end_fs_def big_fs_eq ramdisk_seek_def SEEK_SET_def SEEK_CUR_def SEEK_END_def
        eval_defs)

lemma detach_at_end_fs:
  "fs_ramdisk_detach at_end_fs ''x'' =
     (Inr (0x6000, 100),
      \<lparr>files = [0x2000 \<mapsto> \<lparr>name = ''/'', fsize = 0, ftype = 2, openfor = 0, usage = 0,
                  data = 0x1000, datasize = 0, dirlist = 0\<rparr>,
               0x3000 \<mapsto> \<lparr>name = ''x'', fsize = 64, ftype = 1, openfor = 1, usage = 1,
                  data = 0x7000, datasize = 64, dirlist = 0x1000\<rparr>],
      lists = [0x1000 \<mapsto> [0x3000]],
      blocks = [0x6000 \<mapsto> replicate 100 0x55, 0x7000 \<mapsto> replicate 64 0],
      fh = (replicate 8 zero_handle)[1 := zero_handle\<lparr>hfile := 0x3000, ptr := 100\<rparr>],
      root = 0x2000, rootdir = 0x1000, heap = []\<rparr>)"
  by (simp add: at_end_fs_eq fs_ramdisk_detach_def ramdisk_unlink_def eval_defs table8
         list_update_swap)

lemma reachable_big_fs: "reachable big_fs"
proof -
  have "reachable (fresh_fs\<lparr>heap := [0x3000, 0x3100, 0x4000, 0x5000]\<rparr>)"
    by (rule reach_heap [OF reachable_fresh_fs])
  then have "reachable (fresh_fs\<lparr>heap := [0x3000, 0x3100, 0x4000, 0x5000]\<rparr>
      \<lparr>blocks := (blocks (fresh_fs\<lparr>heap := [0x3000, 0x3100, 0x4000, 0x5000]\<rparr>))
         (0x6000 \<mapsto> replicate 100 0x55)\<rparr>)"
    by (rule reach_block) (simp add: fresh_fs_eq unused_def NULL_def)
  then have r: "reachable (fresh_fs\<lparr>heap := [0x3000, 0x3100, 0x4000, 0x5000],
        blocks := [0x6000 \<mapsto> replicate 100 0x55]\<rparr>)"
    by (simp add: fresh_fs_eq)
  show ?thesis
    by (rule reach_call [OF r, where c = "Call_attach ''x'' 0x6000 100"])
       (simp add: big_fs_def [symmetric] big_fs_eq,
        simp add: fresh_fs_eq fs_ramdisk_attach_def eval_defs crashed_def)
qed

lemma reachable_at_end_fs: "reachable at_end_fs"
proof -
  have "reachable (snd (ramdisk_open big_fs ''x'' O_RDONLY))"
    by (rule reach_call [OF reachable_big_fs, where c = "Call_open ''x'' O_RDONLY"])
       (simp add: big_fs_eq eval_defs crashed_def)
  then have "reachable (snd (ramdisk_seek (snd (ramdisk_open big_fs ''x'' O_RDONLY)) 1 0 SEEK_END))"
    by (rule reach_call [where c = "Call_seek 1 0 SEEK_END"])
       (simp add: big_fs_eq ramdisk_seek_def SEEK_SET_def SEEK_CUR_def SEEK_END_def
          eval_defs crashed_def)
  then show ?thesis unfolding at_end_fs_def by (rule reach_heap)
qed

lemma reachable_detached: "reachable (snd (fs_ramdisk_detach at_end_fs ''x''))"
  by (rule reach_call [OF reachable_at_end_fs, where c = "Call_detach ''x''"])
     (simp add: detach_at_end_fs crashed_def)

text \<open>
  C2. The claim: in every reachable state the capacity of a file is at least its
  logical size and the cursor of every handle on it is at most the logical size, and
  every operation keeps this, \<^verbatim>\<open>fs_ramdisk_detach\<close> with other read handles open on the node
  included. The code of \<^verbatim>\<open>fs_ramdisk_detach\<close> does not keep it: it opens the node for
  reading, which a node with readers allows, and sets the logical size to 64 whatever
  the cursors of the other handles are. In the reachable state \<open>at_end_fs\<close> the bounds
  hold, with the cursor of handle 1 at 100, the size of \<^verbatim>\<open>x\<close>; \<^verbatim>\<open>fs_ramdisk_detach\<close> succeeds,
  its \<^verbatim>\<open>ramdisk_unlink\<close> fails on the open node, and the state it leaves is reachable and
  has the cursor 100 over the logical size 64. A read of one byte through handle 1
  then computes the length \<open>64 - 100\<close> in \<^verbatim>\<open>uint32\<close> and copies from outside the block.
\<close>

theorem detach_with_reader_breaks_cursor_bound:
  "reachable at_end_fs \<and> sizes_ok at_end_fs
   \<and> fst (fs_ramdisk_detach at_end_fs ''x'') = Inr (0x6000, 100)
   \<and> reachable (snd (fs_ramdisk_detach at_end_fs ''x''))
   \<and> \<not> sizes_ok (snd (fs_ramdisk_detach at_end_fs ''x''))
   \<and> hfile (fh (snd (fs_ramdisk_detach at_end_fs ''x'')) ! 1) = 0x3000
   \<and> ptr (fh (snd (fs_ramdisk_detach at_end_fs ''x'')) ! 1) = 100
   \<and> map_option fsize (files (snd (fs_ramdisk_detach at_end_fs ''x'')) 0x3000) = Some 64
   \<and> fst (ramdisk_read (snd (fs_ramdisk_detach at_end_fs ''x'')) 1 1) = Inl Fault"
proof -
  have a: "sizes_ok at_end_fs"
    by (simp add: sizes_ok_def cursor_ok_def entries_def at_end_fs_eq table8 zero_handle_def
          NULL_def)
  have b: "\<not> sizes_ok (snd (fs_ramdisk_detach at_end_fs ''x''))"
    by (simp add: sizes_ok_def cursor_ok_def entries_def detach_at_end_fs table8 zero_handle_def
          NULL_def)
  have c: "fst (ramdisk_read (snd (fs_ramdisk_detach at_end_fs ''x'')) 1 1) = Inl Fault"
    by (simp add: detach_at_end_fs ramdisk_read_def table8 zero_handle_def NULL_def)
  have d: "hfile (fh (snd (fs_ramdisk_detach at_end_fs ''x'')) ! 1) = 0x3000"
    "ptr (fh (snd (fs_ramdisk_detach at_end_fs ''x'')) ! 1) = 100"
    "map_option fsize (files (snd (fs_ramdisk_detach at_end_fs ''x'')) 0x3000) = Some 64"
    by (simp_all add: detach_at_end_fs)
  have e: "fst (fs_ramdisk_detach at_end_fs ''x'') = Inr (0x6000, 100)"
    by (simp add: detach_at_end_fs)
  show ?thesis using reachable_at_end_fs reachable_detached a b c d e by (intro conjI)
qed

section \<open>Writing after a truncation without memory\<close>

lemma open_trunc_fresh:
  "ramdisk_open (fresh_fs\<lparr>heap := [0x3000, 0x3100, 0x4000]\<rparr>) ''f'' (O_WRONLY OR O_TRUNC) =
     (Inr 1,
      \<lparr>files = [0x2000 \<mapsto> \<lparr>name = ''/'', fsize = 0, ftype = 2, openfor = 0, usage = 0,
                  data = 0x1000, datasize = 0, dirlist = 0\<rparr>,
               0x3000 \<mapsto> \<lparr>name = ''f'', fsize = 0, ftype = 1, openfor = 2, usage = 1,
                  data = 0, datasize = 1024, dirlist = 0x1000\<rparr>],
      lists = [0x1000 \<mapsto> [0x3000]], blocks = Map.empty,
      fh = (replicate 8 zero_handle)[1 := zero_handle\<lparr>hfile := 0x3000, omode := 0x401\<rparr>],
      root = 0x2000, rootdir = 0x1000, heap = []\<rparr>)"
  by (simp add: fresh_fs_eq eval_defs)

lemma trunc_fs_eq:
  "trunc_fs =
      \<lparr>files = [0x2000 \<mapsto> \<lparr>name = ''/'', fsize = 0, ftype = 2, openfor = 0, usage = 0,
                  data = 0x1000, datasize = 0, dirlist = 0\<rparr>,
               0x3000 \<mapsto> \<lparr>name = ''f'', fsize = 0, ftype = 1, openfor = 2, usage = 1,
                  data = 0, datasize = 1024, dirlist = 0x1000\<rparr>],
      lists = [0x1000 \<mapsto> [0x3000]], blocks = Map.empty,
      fh = (replicate 8 zero_handle)[1 := zero_handle\<lparr>hfile := 0x3000, omode := 0x401\<rparr>],
      root = 0x2000, rootdir = 0x1000, heap = []\<rparr>"
  by (simp add: trunc_fs_def open_trunc_fresh)

lemma reachable_trunc_fs: "reachable trunc_fs"
proof -
  have r: "reachable (fresh_fs\<lparr>heap := [0x3000, 0x3100, 0x4000]\<rparr>)"
    by (rule reach_heap [OF reachable_fresh_fs])
  show ?thesis
    by (rule reach_call [OF r, where c = "Call_open ''f'' (O_WRONLY OR O_TRUNC)"])
       (simp add: trunc_fs_def open_trunc_fresh crashed_def)
qed

text \<open>
  C3. The claim: on a valid file handle whose node is in writing mode, \<^verbatim>\<open>write\<close> either
  fails in the reallocation and returns \<^verbatim>\<open>-1\<close>, or copies the \<open>n\<close> bytes at the cursor and
  returns \<open>n\<close>. The code of \<^verbatim>\<open>ramdisk_open\<close> does not test the result of the \<^verbatim>\<open>malloc(1024)\<close> of
  \<^verbatim>\<open>O_TRUNC\<close>, as \<^verbatim>\<open>ramdisk_create_file\<close> and \<^verbatim>\<open>ramdisk_write\<close> do for their allocations. In the
  reachable state \<open>trunc_fs\<close> that allocation has failed: the open has returned handle
  1, a valid file handle on a node locked for writing, with the block pointer \<^verbatim>\<open>NULL\<close> and
  the capacity 1024. A write of one byte through it fits the capacity, so nothing is
  reallocated, and \<^verbatim>\<open>memcpy\<close> copies to address 0: the write neither returns 1 nor
  \<^verbatim>\<open>-1\<close>.
\<close>

theorem write_after_failed_truncation:
  "reachable trunc_fs
   \<and> fst (ramdisk_open (fresh_fs\<lparr>heap := [0x3000, 0x3100, 0x4000]\<rparr>) ''f'' (O_WRONLY OR O_TRUNC))
       = Inr 1
   \<and> hfile (fh trunc_fs ! 1) = 0x3000 \<and> dir (fh trunc_fs ! 1) = 0 \<and> ptr (fh trunc_fs ! 1) = 0
   \<and> map_option openfor (files trunc_fs 0x3000) = Some OPENFOR_WRITE
   \<and> map_option data (files trunc_fs 0x3000) = Some NULL
   \<and> map_option datasize (files trunc_fs 0x3000) = Some 1024
   \<and> ramdisk_write trunc_fs 1 [9] 1 = (Inl Fault, trunc_fs)"
proof -
  have a: "fst (ramdisk_open (fresh_fs\<lparr>heap := [0x3000, 0x3100, 0x4000]\<rparr>) ''f''
      (O_WRONLY OR O_TRUNC)) = Inr 1"
    by (simp add: open_trunc_fresh)
  have b: "hfile (fh trunc_fs ! 1) = 0x3000" "dir (fh trunc_fs ! 1) = 0" "ptr (fh trunc_fs ! 1) = 0"
    by (simp_all add: trunc_fs_eq zero_handle_def)
  have c: "map_option openfor (files trunc_fs 0x3000) = Some OPENFOR_WRITE"
    "map_option data (files trunc_fs 0x3000) = Some NULL"
    "map_option datasize (files trunc_fs 0x3000) = Some 1024"
    by (simp_all add: trunc_fs_eq OPENFOR_WRITE_def NULL_def)
  have d: "ramdisk_write trunc_fs 1 [9] 1 = (Inl Fault, trunc_fs)"
    by (simp add: trunc_fs_eq ramdisk_write_def zero_handle_def NULL_def OPENFOR_WRITE_def)
  show ?thesis using reachable_trunc_fs a b c d by (intro conjI)
qed

section \<open>Reading with a count that wraps\<close>

text \<open>
  C5. The claim: a seek past the end of the file leaves the cursor at the logical size,
  and a read that follows returns 0 bytes. The seek does: on the reachable state
  \<open>reader_fs\<close>, \<^verbatim>\<open>ramdisk_seek(1, 10, SEEK_SET)\<close> returns 3, the size of \<^verbatim>\<open>blob\<close>, and a read of 100
  bytes then returns 0 bytes. But the test \<^verbatim>\<open>ptr + bytes > size\<close> of \<^verbatim>\<open>ramdisk_read\<close>, which is
  there to cut the count down to what is left, adds in \<^verbatim>\<open>uint32\<close>: for the count
  \<open>0xFFFFFFFF\<close> the sum \<open>3 + 0xFFFFFFFF\<close> wraps to 2, the count is not cut down, and \<^verbatim>\<open>memcpy\<close>
  copies \<open>0xFFFFFFFF\<close> bytes from the end of the block of 3 bytes.
\<close>

theorem read_count_wraps:
  "reachable reader_fs
   \<and> fst (ramdisk_seek reader_fs 1 10 SEEK_SET) = Inr 3
   \<and> ptr (fh (snd (ramdisk_seek reader_fs 1 10 SEEK_SET)) ! 1) = 3
   \<and> map_option fsize (files (snd (ramdisk_seek reader_fs 1 10 SEEK_SET)) 0x3000) = Some 3
   \<and> blocks (snd (ramdisk_seek reader_fs 1 10 SEEK_SET)) 0x6000 = Some [0xAA, 0xBB, 0xCC]
   \<and> (3 + 0xFFFFFFFF :: uint32) = 2
   \<and> fst (ramdisk_read (snd (ramdisk_seek reader_fs 1 10 SEEK_SET)) 1 0xFFFFFFFF) = Inl Fault
   \<and> fst (ramdisk_read (snd (ramdisk_seek reader_fs 1 10 SEEK_SET)) 1 100) = Inr (0, [])"
proof -
  have sk: "ramdisk_seek reader_fs 1 10 SEEK_SET =
     (Inr 3,
     \<lparr>files = [0x2000 \<mapsto> \<lparr>name = ''/'', fsize = 0, ftype = 2, openfor = 0, usage = 0,
                  data = 0x1000, datasize = 0, dirlist = 0\<rparr>,
               0x3000 \<mapsto> \<lparr>name = ''blob'', fsize = 3, ftype = 1, openfor = 1, usage = 1,
                  data = 0x6000, datasize = 3, dirlist = 0x1000\<rparr>],
      lists = [0x1000 \<mapsto> [0x3000]], blocks = [0x6000 \<mapsto> [0xAA, 0xBB, 0xCC]],
      fh = (replicate 8 zero_handle)[1 := zero_handle\<lparr>hfile := 0x3000, ptr := 3\<rparr>],
      root = 0x2000, rootdir = 0x1000, heap = []\<rparr>)"
    by (simp add: reader_fs_eq ramdisk_seek_def SEEK_SET_def zero_handle_def NULL_def)
  have a: "fst (ramdisk_seek reader_fs 1 10 SEEK_SET) = Inr 3"
    "ptr (fh (snd (ramdisk_seek reader_fs 1 10 SEEK_SET)) ! 1) = 3"
    "map_option fsize (files (snd (ramdisk_seek reader_fs 1 10 SEEK_SET)) 0x3000) = Some 3"
    "blocks (snd (ramdisk_seek reader_fs 1 10 SEEK_SET)) 0x6000 = Some [0xAA, 0xBB, 0xCC]"
    by (simp_all add: sk)
  have w: "(3 + 0xFFFFFFFF :: uint32) = 2" by simp
  have b: "fst (ramdisk_read (snd (ramdisk_seek reader_fs 1 10 SEEK_SET)) 1 0xFFFFFFFF) = Inl Fault"
    by (simp add: sk ramdisk_read_def zero_handle_def NULL_def)
  have c: "fst (ramdisk_read (snd (ramdisk_seek reader_fs 1 10 SEEK_SET)) 1 100) = Inr (0, [])"
    by (simp add: sk ramdisk_read_def zero_handle_def NULL_def)
  show ?thesis using reachable_reader_fs a w b c by (intro conjI)
qed

section \<open>The sizes that stat and total report\<close>

lemma open_create_fresh:
  "ramdisk_open (fresh_fs\<lparr>heap := [0x3000, 0x3100, 0x4000]\<rparr>) ''f'' O_WRONLY =
     (Inr 1,
      \<lparr>files = [0x2000 \<mapsto> \<lparr>name = ''/'', fsize = 0, ftype = 2, openfor = 0, usage = 0,
                  data = 0x1000, datasize = 0, dirlist = 0\<rparr>,
               0x3000 \<mapsto> \<lparr>name = ''f'', fsize = 0, ftype = 1, openfor = 2, usage = 1,
                  data = 0x4000, datasize = 1024, dirlist = 0x1000\<rparr>],
      lists = [0x1000 \<mapsto> [0x3000]], blocks = [0x4000 \<mapsto> replicate 1024 0],
      fh = (replicate 8 zero_handle)[1 := zero_handle\<lparr>hfile := 0x3000, omode := 1\<rparr>],
      root = 0x2000, rootdir = 0x1000, heap = []\<rparr>)"
  by (simp add: fresh_fs_eq eval_defs)

lemma written_fs_eq:
  "written_fs =
      \<lparr>files = [0x2000 \<mapsto> \<lparr>name = ''/'', fsize = 0, ftype = 2, openfor = 0, usage = 0,
                  data = 0x1000, datasize = 0, dirlist = 0\<rparr>,
               0x3000 \<mapsto> \<lparr>name = ''f'', fsize = 4, ftype = 1, openfor = 2, usage = 1,
                  data = 0x4000, datasize = 1024, dirlist = 0x1000\<rparr>],
      lists = [0x1000 \<mapsto> [0x3000]],
      blocks = [0x4000 \<mapsto> [1, 2, 3, 4] @ replicate 1020 0],
      fh = (replicate 8 zero_handle)[1 := zero_handle\<lparr>hfile := 0x3000, ptr := 4, omode := 1\<rparr>],
      root = 0x2000, rootdir = 0x1000, heap = []\<rparr>"
  by (simp add: written_fs_def open_create_fresh ramdisk_write_def zero_handle_def NULL_def
        OPENFOR_WRITE_def realloc_def replicate_add [symmetric] del: replicate_add)

lemma reachable_written_fs: "reachable written_fs"
proof -
  have r: "reachable (fresh_fs\<lparr>heap := [0x3000, 0x3100, 0x4000]\<rparr>)"
    by (rule reach_heap [OF reachable_fresh_fs])
  have o: "reachable (snd (ramdisk_open (fresh_fs\<lparr>heap := [0x3000, 0x3100, 0x4000]\<rparr>) ''f''
      O_WRONLY))"
    by (rule reach_call [OF r, where c = "Call_open ''f'' O_WRONLY"])
       (simp add: open_create_fresh crashed_def)
  show ?thesis
    by (rule reach_call [OF o, where c = "Call_write 1 [1, 2, 3, 4] 4"])
       (simp add: written_fs_def [symmetric] written_fs_eq,
        simp add: open_create_fresh ramdisk_write_def zero_handle_def NULL_def
          OPENFOR_WRITE_def realloc_def crashed_def)
qed

lemma stat_file:
  assumes t: "tree_inv s" and r: "ramdisk_find_path s (rootdir s) path 0 = Inr f" and f: "f \<noteq> NULL"
  shows "\<exists>e. files s f = Some e \<and> ftype e \<noteq> STAT_TYPE_DIR
     \<and> map_sum id st_size (ramdisk_stat s path) = Inr (datasize e)"
proof -
  from find_path_file_result [OF t r f] obtain e where l: "leaf path \<noteq> []"
    and e: "files s f = Some e" "ftype e = STAT_TYPE_FILE" by blast
  have nd: "ftype e \<noteq> STAT_TYPE_DIR" using e(2) by (simp add: type_defs)
  have "path \<noteq> []" "path \<noteq> ''/''" using l by (auto simp: leaf_def)
  then have "\<not> (strlen path = 0 \<or> (strlen path = 1 \<and> hd path = CHR ''/''))"
    by (cases path) (auto simp: strlen_def)
  then have "map_sum id st_size (ramdisk_stat s path) = Inr (datasize e)"
    using r f e nd by (auto simp: ramdisk_stat_def Let_def)
  then show ?thesis using e nd by simp
qed

lemma total_file:
  assumes inv: "fs_inv s" and h: "0 \<le> h" "nat h < length (fh s)" "hfile (fh s ! nat h) \<noteq> NULL"
    "dir (fh s ! nat h) = 0"
  shows "\<exists>e. files s (hfile (fh s ! nat h)) = Some e \<and> ftype e \<noteq> STAT_TYPE_DIR
     \<and> ramdisk_total s h = Inr (fsize e)"
proof -
  obtain e where e: "files s (hfile (fh s ! nat h)) = Some e"
    using handle_invD1 [OF fs_inv_handle [OF inv], of "fh s ! nat h"] h by auto
  have nr: "hfile (fh s ! nat h) \<noteq> root s" by (rule file_handle_not_root [OF inv h(2,3,4)])
  have "hfile (fh s ! nat h) \<in> set (entries s)"
    using tree_nodes [OF fs_inv_tree [OF inv] e] nr by simp
  then have "ftype e = STAT_TYPE_FILE" using tree_entry [OF fs_inv_tree [OF inv]] e by fastforce
  then have "ftype e \<noteq> STAT_TYPE_DIR" by (simp add: type_defs)
  moreover have "ramdisk_total s h = Inr (fsize e)"
    using h e by (simp add: ramdisk_total_def Let_def)
  ultimately show ?thesis using e by simp
qed

lemma directory_is_root:
  assumes t: "tree_inv s" and e: "files s f = Some e" and d: "ftype e = STAT_TYPE_DIR"
  shows "f = root s"
proof (rule ccontr)
  assume "f \<noteq> root s"
  then have "f \<in> set (entries s)" using tree_nodes [OF t e] by simp
  then have "ftype e = STAT_TYPE_FILE" using tree_entry [OF t] e by fastforce
  then show False using d by (simp add: type_defs)
qed

lemma stat_root: "map_sum id st_size (ramdisk_stat s ''/'') = Inr (- 1)"
  "map_sum id st_size (ramdisk_stat s []) = Inr (- 1)"
  by (simp_all add: ramdisk_stat_def strlen_def)

text \<open>
  C6. In every reachable state: when a path names a node, the node is not a directory
  and \<^verbatim>\<open>stat\<close> of the path reports as size the node's capacity (\<^verbatim>\<open>datasize\<close>, the size of the
  allocation), not its logical size; \<^verbatim>\<open>total\<close> on a valid file handle returns the logical
  size (\<^verbatim>\<open>size\<close>) of the handle's node; the only directory node is the root, and \<^verbatim>\<open>stat\<close> of
  the root, under either of its two paths, reports the size \<open>-1\<close>.
\<close>

theorem stat_size_is_capacity:
  assumes "reachable s"
  shows "(\<forall>path f. ramdisk_find_path s (rootdir s) path 0 = Inr f \<and> f \<noteq> NULL \<longrightarrow>
            (\<exists>e. files s f = Some e \<and> ftype e \<noteq> STAT_TYPE_DIR
                 \<and> map_sum id st_size (ramdisk_stat s path) = Inr (datasize e)))
       \<and> (\<forall>h. 0 \<le> h \<and> nat h < length (fh s) \<and> hfile (fh s ! nat h) \<noteq> NULL
               \<and> dir (fh s ! nat h) = 0 \<longrightarrow>
            (\<exists>e. files s (hfile (fh s ! nat h)) = Some e \<and> ftype e \<noteq> STAT_TYPE_DIR
                 \<and> ramdisk_total s h = Inr (fsize e)))
       \<and> (\<forall>f e. files s f = Some e \<and> ftype e = STAT_TYPE_DIR \<longrightarrow> f = root s)
       \<and> (\<exists>e. files s (root s) = Some e \<and> ftype e = STAT_TYPE_DIR)
       \<and> map_sum id st_size (ramdisk_stat s ''/'') = Inr (- 1)
       \<and> map_sum id st_size (ramdisk_stat s []) = Inr (- 1)"
proof -
  have inv: "fs_inv s" by (rule reachable_inv [OF assms])
  note t = fs_inv_tree [OF inv]
  have a: "\<forall>path f. ramdisk_find_path s (rootdir s) path 0 = Inr f \<and> f \<noteq> NULL \<longrightarrow>
            (\<exists>e. files s f = Some e \<and> ftype e \<noteq> STAT_TYPE_DIR
                 \<and> map_sum id st_size (ramdisk_stat s path) = Inr (datasize e))"
    using stat_file [OF t] by blast
  have b: "\<forall>h. 0 \<le> h \<and> nat h < length (fh s) \<and> hfile (fh s ! nat h) \<noteq> NULL
               \<and> dir (fh s ! nat h) = 0 \<longrightarrow>
            (\<exists>e. files s (hfile (fh s ! nat h)) = Some e \<and> ftype e \<noteq> STAT_TYPE_DIR
                 \<and> ramdisk_total s h = Inr (fsize e))"
    using total_file [OF inv] by blast
  have c: "\<forall>f e. files s f = Some e \<and> ftype e = STAT_TYPE_DIR \<longrightarrow> f = root s"
    using directory_is_root [OF t] by blast
  have d: "\<exists>e. files s (root s) = Some e \<and> ftype e = STAT_TYPE_DIR"
    using tree_root_node [OF t] by blast
  show ?thesis using a b c d stat_root [of s] by (intro conjI)
qed

theorem stat_size_is_capacity_witness:
  "reachable written_fs
   \<and> ramdisk_find_path written_fs (rootdir written_fs) ''f'' 0 = Inr 0x3000
   \<and> map_option datasize (files written_fs 0x3000) = Some 1024
   \<and> map_option fsize (files written_fs 0x3000) = Some 4
   \<and> map_sum id st_size (ramdisk_stat written_fs ''f'') = Inr 1024
   \<and> hfile (fh written_fs ! 1) = 0x3000 \<and> dir (fh written_fs ! 1) = 0
   \<and> ramdisk_total written_fs 1 = Inr 4
   \<and> map_option ftype (files written_fs 0x2000) = Some STAT_TYPE_DIR
   \<and> root written_fs = 0x2000
   \<and> map_sum id st_size (ramdisk_stat written_fs ''/'') = Inr (- 1)"
proof -
  note t = stat_size_is_capacity [OF reachable_written_fs]
  have p: "ramdisk_find_path written_fs (rootdir written_fs) ''f'' 0 = Inr 0x3000"
    by (simp add: written_fs_eq eval_defs)
  have n: "(0x3000 :: addr) \<noteq> NULL" by (simp add: NULL_def)
  have e: "files written_fs 0x3000 = Some \<lparr>name = ''f'', fsize = 4, ftype = 1, openfor = 2,
      usage = 1, data = 0x4000, datasize = 1024, dirlist = 0x1000\<rparr>"
    "files written_fs 0x2000 = Some \<lparr>name = ''/'', fsize = 0, ftype = 2, openfor = 0, usage = 0,
                  data = 0x1000, datasize = 0, dirlist = 0\<rparr>"
    by (simp_all add: written_fs_eq)
  have h: "(0 :: int) \<le> 1" "nat 1 < length (fh written_fs)" "hfile (fh written_fs ! nat 1) = 0x3000"
    "dir (fh written_fs ! nat 1) = 0"
    by (simp_all add: written_fs_eq zero_handle_def)
  have c1: "map_sum id st_size (ramdisk_stat written_fs ''f'') = Inr 1024"
    using t [THEN conjunct1, rule_format, of "''f''" "0x3000"] p n e by simp
  have c2: "ramdisk_total written_fs 1 = Inr 4"
    using t [THEN conjunct2, THEN conjunct1, rule_format, of 1] h n e by simp
  have c3: "root written_fs = 0x2000"
    using t [THEN conjunct2, THEN conjunct2, THEN conjunct1, rule_format, of "0x2000"] e
    by (simp add: type_defs)
  have c4: "map_sum id st_size (ramdisk_stat written_fs ''/'') = Inr (- 1)"
    using t by blast
  show ?thesis using reachable_written_fs p e h c1 c2 c3 c4 by (simp add: type_defs)
qed

section \<open>Opening a new file with a full handle table\<close>













section \<open>Reading a directory\<close>



















section \<open>Attach and detach in turn\<close>




















end
